theory Spec2Isabelle
  imports Main "HOL-Library.Multiset"
begin

section \<open>Python values used by plot\_standard\_shocks.py\<close>

text \<open>
  The script \<^verbatim>\<open>Analysis/Standard_shocks/plot_standard_shocks.py\<close> is embedded as
  HOL functions. Every Python exception that can end the script, raised by its own
  statements or by a library it calls, is a value of
  \<open>py_error\<close>; a computation that may raise returns \<open>py_error + 'a\<close>, with \<open>Inl\<close>
  for the exception.
\<close>

datatype py_error = IndexError | KeyError | ZeroDivisionError | ValueError | AttributeError

text \<open>\<^verbatim>\<open>xs[i]\<close>: a negative index counts from the end, an index out of range raises.
  \<open>py_pos\<close> is the position read, \<open>py_index\<close> the element.\<close>

definition py_pos :: "'a list \<Rightarrow> int \<Rightarrow> py_error + nat" where
  "py_pos xs i =
     (let n = int (length xs); j = (if i < 0 then n + i else i)
      in if 0 \<le> j \<and> j < n then Inr (nat j) else Inl IndexError)"

definition py_index :: "'a list \<Rightarrow> int \<Rightarrow> py_error + 'a" where
  "py_index xs i = (case py_pos xs i of Inl e \<Rightarrow> Inl e | Inr k \<Rightarrow> Inr (xs ! k))"

text \<open>\<^verbatim>\<open>range(k)\<close>: the integers \<open>0, ..., k - 1\<close>, none when \<open>k \<le> 0\<close>.\<close>

definition py_range :: "int \<Rightarrow> int list" where
  "py_range k = [0..k - 1]"

text \<open>\<^verbatim>\<open>range(start, stop, step)\<close>: a zero step raises ValueError; the number of
  elements is the one CPython computes.\<close>

definition py_range3 :: "int \<Rightarrow> int \<Rightarrow> int \<Rightarrow> py_error + int list" where
  "py_range3 start stop step =
     (if step = 0 then Inl ValueError
      else if 0 < step
        then Inr (map (\<lambda>k. start + int k * step) [0..<nat ((stop - start + step - 1) div step)])
        else Inr (map (\<lambda>k. start + int k * step) [0..<nat ((start - stop - step - 1) div (- step))]))"

text \<open>\<^verbatim>\<open>l[i:j]\<close>: a negative bound counts from the end, and both bounds are clamped
  to the list; slicing never raises.\<close>

definition slice_bound :: "nat \<Rightarrow> int \<Rightarrow> nat" where
  "slice_bound len k = (if k < 0 then nat (max 0 (int len + k)) else min (nat k) len)"

definition py_slice :: "'a list \<Rightarrow> int \<Rightarrow> int \<Rightarrow> 'a list" where
  "py_slice l i j = take (slice_bound (length l) j - slice_bound (length l) i)
                         (drop (slice_bound (length l) i) l)"

section \<open>Pagination planner\<close>

text \<open>
  \<^verbatim>\<open>
  def divide_chunks(l, n):
      for i in range(0, len(l), n):
          yield l[i:i + n]
  \<close>
  The generator is consumed at once by \<^verbatim>\<open>list(...)\<close>, so the model returns the list
  of all chunks, or the exception of \<^verbatim>\<open>range\<close>.
\<close>

definition divide_chunks :: "'a list \<Rightarrow> int \<Rightarrow> py_error + 'a list list" where
  "divide_chunks l n =
     (case py_range3 0 (int (length l)) n of
        Inl e \<Rightarrow> Inl e
      | Inr is \<Rightarrow> Inr (map (\<lambda>i. py_slice l i (i + n)) is))"

section \<open>Facet axes\<close>

text \<open>
  \<^verbatim>\<open>
  def get_yaxis(fig, i, facet_col_wrap):
      yaxes = list(fig.select_yaxes())
      n = len(yaxes)
      n_cols = min(facet_col_wrap, n)
      n_rows = n // n_cols
      idx = [[n-((1+r)*n_cols-c) for c in range(n_cols)] for r in range(n_rows)]
      idx = [item for sublist in idx for item in sublist]
      return yaxes[idx[i]]
  \<close>
  The figure enters through the list of its y-axes. \<open>facet_idx\<close> is the flattened list
  \<^verbatim>\<open>idx\<close>; \<open>get_yaxis\<close> returns the position in \<^verbatim>\<open>yaxes\<close> of the axis object the Python
  returns (the caller mutates that object, so its position is what identifies it).
\<close>

definition facet_idx :: "int \<Rightarrow> int \<Rightarrow> int \<Rightarrow> int list" where
  "facet_idx n n_cols n_rows =
     concat (map (\<lambda>r. map (\<lambda>c. n - ((1 + r) * n_cols - c)) (py_range n_cols)) (py_range n_rows))"

definition get_yaxis :: "'a list \<Rightarrow> int \<Rightarrow> int \<Rightarrow> py_error + nat" where
  "get_yaxis yaxes i facet_col_wrap =
     (let n = int (length yaxes);
          n_cols = min facet_col_wrap n
      in if n_cols = 0 then Inl ZeroDivisionError
         else let n_rows = n div n_cols;
                  idx = facet_idx n n_cols n_rows
              in case py_index idx i of
                   Inl e \<Rightarrow> Inl e
                 | Inr k \<Rightarrow> py_pos yaxes k)"

section \<open>Configuration\<close>

text \<open>
  The script reads its configuration from literals and from two modules that are not part
  of the file, \<^verbatim>\<open>shocks_to_plot\<close> and \<^verbatim>\<open>variables_to_plot\<close>. All of it is a parameter
  here. A getter is an opaque function object of the simulation-database library, of an
  arbitrary type \<open>'g\<close>. An entry of \<^verbatim>\<open>shock_specific_plot_info\<close> is the 4-tuple the
  script unpacks: Danish label, English label, getter, operator.
\<close>

type_synonym 'g plot_info = "string \<times> string \<times> 'g \<times> string"

record 'g config =
  gdx_folders_info :: "(string \<times> string) list"
  variations_info :: "(string \<times> string \<times> string) list"
  shock_names :: "string list"
  shock_labels_DA :: "string list"
  shock_labels_EN :: "string list"
  shock_specific_plot_info :: "'g plot_info list"
  variable_labels_DK :: "string list"
  variable_labels_EN :: "string list"
  get_variable_functions :: "'g list"
  operators :: "string list"

definition DA :: bool where "DA = True"
definition t1 :: int where "t1 = 2030"
definition T :: int where "T = 2045"
definition output_folder :: string where "output_folder = ''Output''"
definition fname :: string where "fname = ''standard_shocks''"
definition output_extension :: string where "output_extension = ''.png''"
definition columns_pr_page :: int where "columns_pr_page = 3"
definition rows_pr_page :: int where "rows_pr_page = 6"
definition plots_pr_page :: int where "plots_pr_page = columns_pr_page * rows_pr_page"

text \<open>\<^verbatim>\<open>shock_variation_suffixes, shock_variation_labels_DA, shock_variation_labels_EN =
  zip(*variations_info)\<close> and the language choice of lines 50 to 52.\<close>

definition shock_variation_suffixes :: "'g config \<Rightarrow> string list" where
  "shock_variation_suffixes cfg = map fst (variations_info cfg)"

definition shock_variation_labels :: "'g config \<Rightarrow> string list" where
  "shock_variation_labels cfg =
     (if DA then map (\<lambda>(suffix, label_DA, label_EN). label_DA) (variations_info cfg)
      else map (\<lambda>(suffix, label_DA, label_EN). label_EN) (variations_info cfg))"

definition variable_labels :: "'g config \<Rightarrow> string list" where
  "variable_labels cfg = (if DA then variable_labels_DK cfg else variable_labels_EN cfg)"

definition shock_labels :: "'g config \<Rightarrow> string list" where
  "shock_labels cfg = (if DA then shock_labels_DA cfg else shock_labels_EN cfg)"

text \<open>\<^verbatim>\<open>zip(shock_names, shock_labels, shock_specific_plot_info)\<close>: the shocks the data
  building loop iterates over; \<^verbatim>\<open>zip\<close> stops at the shortest list.\<close>

definition shock_entries :: "'g config \<Rightarrow> (string \<times> string \<times> 'g plot_info) list" where
  "shock_entries cfg = zip (shock_names cfg) (zip (shock_labels cfg) (shock_specific_plot_info cfg))"

section \<open>File-existence filter\<close>

text \<open>The file system is the set of paths at which there is a file: the paths for which
  \<^verbatim>\<open>os.path.exists\<close> is true, and the paths \<^verbatim>\<open>dt.Gdx\<close> can open. The
  paths are the raw f-strings \<^verbatim>\<open>{folder}\{shock}{suffix}.gdx\<close> and \<^verbatim>\<open>{folder}\baseline.gdx\<close>.\<close>

definition backslash :: char where "backslash = CHR 0x5C"

definition gdx_path :: "string \<Rightarrow> string \<Rightarrow> string \<Rightarrow> string" where
  "gdx_path folder shock suffix = folder @ [backslash] @ shock @ suffix @ ''.gdx''"

definition baseline_path :: "string \<Rightarrow> string" where
  "baseline_path folder = folder @ [backslash] @ ''baseline.gdx''"

text \<open>
  \<^verbatim>\<open>
  def shock_files_exist(shock):
      return all(
          os.path.exists(fr"{folder}\{shock}{suffix}.gdx")
          for suffix in shock_variation_suffixes
          for folder, _ in gdx_folders_info
      )
  \<close>
\<close>

definition shock_files_exist :: "'g config \<Rightarrow> string set \<Rightarrow> string \<Rightarrow> bool" where
  "shock_files_exist cfg files shock =
     list_all id (concat (map (\<lambda>suffix.
        map (\<lambda>(folder, folder_label). gdx_path folder shock suffix \<in> files) (gdx_folders_info cfg))
       (shock_variation_suffixes cfg)))"

section \<open>Combination-table builder\<close>

text \<open>One dictionary appended to \<^verbatim>\<open>data\<close>. A database object is identified by the
  position of its \<^verbatim>\<open>dt.Gdx(...)\<close> call in the sequence of all such calls of the run.\<close>

record 'g row =
  variable_index :: nat
  folder :: string
  folder_label :: string
  shock_name :: string
  shock_label :: string
  variation :: string
  variation_label :: string
  database :: nat
  baseline :: nat
  getter :: 'g
  variable_label :: string
  operator :: string

text \<open>The state the loop of lines 71 to 105 works on: the list \<^verbatim>\<open>data\<close>, the three
  module-level lists whose element 0 the loop overwrites (\<^verbatim>\<open>variable_labels\<close>,
  \<^verbatim>\<open>get_variable_functions\<close>, \<^verbatim>\<open>operators\<close>), the paths passed to \<^verbatim>\<open>dt.Gdx\<close> so far,
  in call order, and the lines printed.\<close>

record 'g build_state =
  st_data :: "'g row list"
  st_variable_labels :: "string list"
  st_get_variable_functions :: "'g list"
  st_operators :: "string list"
  st_opened :: "string list"
  st_stdout :: "string list"

definition initial_state :: "'g config \<Rightarrow> 'g build_state" where
  "initial_state cfg =
     \<lparr>st_data = [],
      st_variable_labels = variable_labels cfg,
      st_get_variable_functions = get_variable_functions cfg,
      st_operators = operators cfg,
      st_opened = [],
      st_stdout = []\<rparr>"

text \<open>\<^verbatim>\<open>dt.Gdx(path)\<close>: a call into the database library, which loads the file at the
  path. With no file there the library raises (a ValueError), and the script catches
  nothing, so the run ends; a file that exists is a database the library loads. The call
  yields a new database object, the next position of the call sequence.\<close>

definition Gdx :: "string set \<Rightarrow> string \<Rightarrow> 'g build_state \<Rightarrow> py_error + nat \<times> 'g build_state" where
  "Gdx files path st =
     (if path \<in> files
      then Inr (length (st_opened st), st\<lparr>st_opened := st_opened st @ [path]\<rparr>)
      else Inl ValueError)"

text \<open>\<^verbatim>\<open>xs[0] = v\<close>: raises IndexError on an empty list.\<close>

definition set_first :: "'a list \<Rightarrow> 'a \<Rightarrow> py_error + 'a list" where
  "set_first xs v = (case xs of [] \<Rightarrow> Inl IndexError | x # rest \<Rightarrow> Inr (v # rest))"

text \<open>Lines 80 to 83: the three assignments to element 0, in the source's order.\<close>

definition override_first :: "'g plot_info \<Rightarrow> 'g build_state \<Rightarrow> py_error + 'g build_state" where
  "override_first info st =
     (case info of (variable_label_DK, variable_label_EN, g, opr) \<Rightarrow>
        (case set_first (st_variable_labels st) (if DA then variable_label_DK else variable_label_EN) of
           Inl e \<Rightarrow> Inl e
         | Inr labels \<Rightarrow>
             (case set_first (st_get_variable_functions st) g of
                Inl e \<Rightarrow> Inl e
              | Inr gs \<Rightarrow>
                  (case set_first (st_operators st) opr of
                     Inl e \<Rightarrow> Inl e
                   | Inr oprs \<Rightarrow>
                       Inr (st\<lparr>st_variable_labels := labels,
                               st_get_variable_functions := gs,
                               st_operators := oprs\<rparr>)))))"

text \<open>Lines 87 to 105: one row per element of
  \<^verbatim>\<open>enumerate(zip(variable_labels, get_variable_functions, operators))\<close>.\<close>

definition variable_rows ::
  "string \<times> string \<Rightarrow> string \<times> string \<Rightarrow> string \<times> string \<Rightarrow> nat \<Rightarrow> nat \<Rightarrow> 'g build_state \<Rightarrow> 'g row list" where
  "variable_rows fl sh var db bl st =
     map (\<lambda>(i, (vl, g, opr)).
            \<lparr>variable_index = i, folder = fst fl, folder_label = snd fl,
             shock_name = fst sh, shock_label = snd sh,
             variation = fst var, variation_label = snd var,
             database = db, baseline = bl,
             getter = g, variable_label = vl, operator = opr\<rparr>)
         (enumerate 0 (zip (st_variable_labels st)
                           (zip (st_get_variable_functions st) (st_operators st))))"

text \<open>Lines 85 to 105: the loop over \<^verbatim>\<open>zip(shock_variation_suffixes, shock_variation_labels)\<close>.\<close>

definition variations :: "'g config \<Rightarrow> (string \<times> string) list" where
  "variations cfg = zip (shock_variation_suffixes cfg) (shock_variation_labels cfg)"

fun variation_loop ::
  "string set \<Rightarrow> string \<times> string \<Rightarrow> nat \<Rightarrow> string \<times> string \<Rightarrow> (string \<times> string) list
     \<Rightarrow> 'g build_state \<Rightarrow> py_error + 'g build_state" where
  "variation_loop files fl bl sh [] st = Inr st"
| "variation_loop files fl bl sh (var # rest) st =
     (case Gdx files (gdx_path (fst fl) (fst sh) (fst var)) st of
        Inl e \<Rightarrow> Inl e
      | Inr (db, st1) \<Rightarrow>
          variation_loop files fl bl sh rest
            (st1\<lparr>st_data := st_data st1 @ variable_rows fl sh var db bl st1\<rparr>))"

definition skip_message :: "string \<Rightarrow> string" where
  "skip_message name =
     ''Skipping '' @ [CHR 0x27] @ name @ [CHR 0x27] @ '' as one or more GDX files are missing''"

text \<open>Lines 75 to 105: the body of the loop over the shocks.\<close>

definition shock_step ::
  "'g config \<Rightarrow> string set \<Rightarrow> string \<times> string \<Rightarrow> nat \<Rightarrow> string \<times> string \<times> 'g plot_info
     \<Rightarrow> 'g build_state \<Rightarrow> py_error + 'g build_state" where
  "shock_step cfg files fl bl entry st =
     (case entry of (name, label, info) \<Rightarrow>
        if \<not> shock_files_exist cfg files name
        then Inr (st\<lparr>st_stdout := st_stdout st @ [skip_message name]\<rparr>)
        else (case override_first info st of
                Inl e \<Rightarrow> Inl e
              | Inr st1 \<Rightarrow> variation_loop files fl bl (name, label) (variations cfg) st1))"

fun shock_loop ::
  "'g config \<Rightarrow> string set \<Rightarrow> string \<times> string \<Rightarrow> nat \<Rightarrow> (string \<times> string \<times> 'g plot_info) list
     \<Rightarrow> 'g build_state \<Rightarrow> py_error + 'g build_state" where
  "shock_loop cfg files fl bl [] st = Inr st"
| "shock_loop cfg files fl bl (entry # rest) st =
     (case shock_step cfg files fl bl entry st of
        Inl e \<Rightarrow> Inl e
      | Inr st1 \<Rightarrow> shock_loop cfg files fl bl rest st1)"

text \<open>Lines 72 to 105: the loop over the folders; the baseline is opened at its head.\<close>

fun folder_loop ::
  "'g config \<Rightarrow> string set \<Rightarrow> (string \<times> string) list \<Rightarrow> 'g build_state \<Rightarrow> py_error + 'g build_state" where
  "folder_loop cfg files [] st = Inr st"
| "folder_loop cfg files (fl # rest) st =
     (case Gdx files (baseline_path (fst fl)) st of
        Inl e \<Rightarrow> Inl e
      | Inr (bl, st1) \<Rightarrow>
          (case shock_loop cfg files fl bl (shock_entries cfg) st1 of
             Inl e \<Rightarrow> Inl e
           | Inr st2 \<Rightarrow> folder_loop cfg files rest st2))"

definition build_data :: "'g config \<Rightarrow> string set \<Rightarrow> py_error + 'g build_state" where
  "build_data cfg files = folder_loop cfg files (gdx_folders_info cfg) (initial_state cfg)"

subsection \<open>The table as the specification describes it\<close>

text \<open>
  The specification describes the table as one row per (folder, surviving shock,
  variation, variable), where the variables of a shock are the configured ones with the
  first replaced by the shock's own triple. \<open>plain_table\<close> is that description, written
  from the configuration alone; it leaves the two database references out (set to 0), and
  \<open>erase_handles\<close> does the same to a row of the loop, so that the two can be compared.
\<close>

definition shock_variables :: "'g config \<Rightarrow> 'g plot_info \<Rightarrow> (string \<times> 'g \<times> string) list" where
  "shock_variables cfg info =
     (case info of (variable_label_DK, variable_label_EN, g, opr) \<Rightarrow>
        zip ((if DA then variable_label_DK else variable_label_EN) # tl (variable_labels cfg))
            (zip (g # tl (get_variable_functions cfg)) (opr # tl (operators cfg))))"

definition surviving :: "'g config \<Rightarrow> string set \<Rightarrow> (string \<times> string \<times> 'g plot_info) list" where
  "surviving cfg files = filter (\<lambda>entry. shock_files_exist cfg files (fst entry)) (shock_entries cfg)"

definition plain_row ::
  "string \<times> string \<Rightarrow> string \<times> string \<Rightarrow> string \<times> string \<Rightarrow> nat \<times> string \<times> 'g \<times> string \<Rightarrow> 'g row" where
  "plain_row fl sh var x =
     (case x of (i, (vl, g, opr)) \<Rightarrow>
        \<lparr>variable_index = i, folder = fst fl, folder_label = snd fl,
         shock_name = fst sh, shock_label = snd sh,
         variation = fst var, variation_label = snd var,
         database = 0, baseline = 0,
         getter = g, variable_label = vl, operator = opr\<rparr>)"

definition plain_rows :: "'g config \<Rightarrow> string \<times> string \<Rightarrow> string \<times> string \<times> 'g plot_info \<Rightarrow> 'g row list" where
  "plain_rows cfg fl entry =
     concat (map (\<lambda>var. map (plain_row fl (fst entry, fst (snd entry)) var)
                            (enumerate 0 (shock_variables cfg (snd (snd entry)))))
                 (variations cfg))"

definition plain_table :: "'g config \<Rightarrow> string set \<Rightarrow> 'g row list" where
  "plain_table cfg files =
     concat (map (\<lambda>fl. concat (map (plain_rows cfg fl) (surviving cfg files))) (gdx_folders_info cfg))"

definition erase_handles :: "'g row \<Rightarrow> 'g row" where
  "erase_handles r = r\<lparr>database := 0, baseline := 0\<rparr>"

section \<open>Multiplier extractor\<close>

text \<open>
  The dataframe library enters through what the script observes of it. \<^verbatim>\<open>pd.DataFrame(data)\<close>
  of a list of dictionaries has the dictionaries' keys as columns; of an empty list it has
  no column and no row.
\<close>

definition row_columns :: "string list" where
  "row_columns = [''variable_index'', ''folder'', ''folder_label'', ''shock_name'',
     ''shock_label'', ''variation'', ''variation_label'', ''database'', ''baseline'',
     ''getter'', ''variable_label'', ''operator'']"

record 'g table =
  tb_columns :: "string list"
  tb_rows :: "'g row list"

definition pd_DataFrame :: "'g row list \<Rightarrow> 'g table" where
  "pd_DataFrame rows = \<lparr>tb_columns = (if rows = [] then [] else row_columns), tb_rows = rows\<rparr>"

text \<open>
  \<^verbatim>\<open>dt.DataFrame(row.database, row.operator, row.getter, baselines=row.baseline).squeeze()\<close>
  is a series over the periods set by \<^verbatim>\<open>dt.time(t1-1, T)\<close>. The library function is a
  parameter: for a database, an operator, a getter and a baseline it gives either the
  exception it raises (an operator or a getter that does not apply) or the value at each
  period. A value has an arbitrary type \<open>'v\<close>.
\<close>

type_synonym ('g, 'v) extractor = "nat \<Rightarrow> string \<Rightarrow> 'g \<Rightarrow> nat \<Rightarrow> py_error + (int \<Rightarrow> 'v)"

definition time_axis :: "int list" where
  "time_axis = [t1 - 1..T]"

definition get_multiplier :: "('g, 'v) extractor \<Rightarrow> 'g row \<Rightarrow> py_error + (int \<Rightarrow> 'v)" where
  "get_multiplier dt_DataFrame r = dt_DataFrame (database r) (operator r) (getter r) (baseline r)"

text \<open>\<^verbatim>\<open>data.apply(get_multiplier, axis=1)\<close>: the function is called on the rows in their
  order, and the first exception ends the run. On a table without rows no call is made
  whose exception could reach the script.\<close>

fun apply_rows :: "('g row \<Rightarrow> py_error + 'a) \<Rightarrow> 'g row list \<Rightarrow> py_error + 'a list" where
  "apply_rows f [] = Inr []"
| "apply_rows f (r # rest) =
     (case f r of
        Inl e \<Rightarrow> Inl e
      | Inr s \<Rightarrow> (case apply_rows f rest of Inl e \<Rightarrow> Inl e | Inr ss \<Rightarrow> Inr (s # ss)))"

text \<open>
  \<^verbatim>\<open>df = data.apply(get_multiplier, axis=1).melt(ignore_index=False).join(data)\<close>: one
  record per period and row, period by period and, within a period, in the order of the
  rows; each record keeps the index of its row and, by the join on that index, all the
  columns of the row. The melted frame has the two columns of \<^verbatim>\<open>melt\<close> (the period,
  named \<^verbatim>\<open>variable\<close> when the frame melted has unnamed columns, and \<^verbatim>\<open>value\<close>) followed by
  the columns of \<^verbatim>\<open>data\<close>.
\<close>

record ('g, 'v) point =
  pt_index :: nat
  pt_t :: int
  pt_value :: 'v
  pt_row :: "'g row"

record ('g, 'v) frame =
  fr_columns :: "string list"
  fr_points :: "('g, 'v) point list"

definition make_df :: "('g, 'v) extractor \<Rightarrow> 'g table \<Rightarrow> py_error + ('g, 'v) frame" where
  "make_df dt_DataFrame data =
     (case apply_rows (get_multiplier dt_DataFrame) (tb_rows data) of
        Inl e \<Rightarrow> Inl e
      | Inr series \<Rightarrow>
          Inr \<lparr>fr_columns = (if tb_rows data = [] then [''variable'', ''value''] else [''t'', ''value''])
                          @ tb_columns data,
               fr_points = concat (map (\<lambda>t. map (\<lambda>(i, (r, s)).
                               \<lparr>pt_index = i, pt_t = t, pt_value = s t, pt_row = r\<rparr>)
                             (enumerate 0 (zip (tb_rows data) series))) time_axis)\<rparr>)"

text \<open>\<^verbatim>\<open>df.name\<close>: the column of that name, AttributeError when the frame has none.\<close>

definition column :: "('g, 'v) frame \<Rightarrow> string \<Rightarrow> (('g, 'v) point \<Rightarrow> 'a) \<Rightarrow> py_error + 'a list" where
  "column df name field =
     (if name \<in> set (fr_columns df) then Inr (map field (fr_points df)) else Inl AttributeError)"

text \<open>\<^verbatim>\<open>.unique()\<close>: the distinct values in order of first appearance (\<open>remdups\<close> keeps
  the last occurrence of each value, hence the two reversals).\<close>

definition unique :: "'a list \<Rightarrow> 'a list" where
  "unique xs = rev (remdups (rev xs))"

section \<open>Figure renderer\<close>

text \<open>
  A figure is modelled by the rows it plots and the title texts of its y-axes, in the order
  of \<^verbatim>\<open>fig.select_yaxes()\<close>. The charting call \<^verbatim>\<open>data.plot(...)\<close> is a parameter: it gives
  the y-axes of the figure it builds for the selected rows. The layout calls between
  lines 173 and 194 other than the axis titles do not change what is modelled.
\<close>

record ('g, 'v) figure =
  fig_data :: "('g, 'v) point list"
  fig_yaxis_titles :: "string list"

definition yaxis_title_from_operator :: "(string \<times> string) list" where
  "yaxis_title_from_operator =
     [(''pq'', if DA then ''Pct.-'' @ [CHR 0xC3, CHR 0xA6] @ ''ndring'' else ''Pct. change''),
      (''pm'', if DA then [CHR 0xC3, CHR 0x86] @ ''ndring i pct.-point'' else ''Change in pct. points''),
      ('''', '''')]"

text \<open>\<^verbatim>\<open>d[k]\<close> on a dictionary: KeyError for a missing key.\<close>

definition py_getitem :: "('k \<times> 'v) list \<Rightarrow> 'k \<Rightarrow> py_error + 'v" where
  "py_getitem d k = (case map_of d k of None \<Rightarrow> Inl KeyError | Some v \<Rightarrow> Inr v)"

text \<open>\<^verbatim>\<open>[yaxis_title_from_operator[operator] for operator in operators]\<close>\<close>

fun lookup_all :: "('k \<times> 'v) list \<Rightarrow> 'k list \<Rightarrow> py_error + 'v list" where
  "lookup_all d [] = Inr []"
| "lookup_all d (k # ks) =
     (case py_getitem d k of
        Inl e \<Rightarrow> Inl e
      | Inr v \<Rightarrow> (case lookup_all d ks of Inl e \<Rightarrow> Inl e | Inr vs \<Rightarrow> Inr (v # vs)))"

text \<open>\<^verbatim>\<open>data[~data.variable_index.duplicated()]\<close>: the first record of each variable index.\<close>

fun not_duplicated :: "nat list \<Rightarrow> ('g, 'v) point list \<Rightarrow> ('g, 'v) point list" where
  "not_duplicated seen [] = []"
| "not_duplicated seen (p # ps) =
     (if variable_index (pt_row p) \<in> set seen then not_duplicated seen ps
      else p # not_duplicated (variable_index (pt_row p) # seen) ps)"

text \<open>Lines 190 and 191: \<^verbatim>\<open>get_yaxis(fig, i, columns_pr_page).update(title_text=yaxis_title)\<close>
  for each enumerated title.\<close>

fun set_titles :: "(nat \<times> string) list \<Rightarrow> string list \<Rightarrow> py_error + string list" where
  "set_titles [] yaxes = Inr yaxes"
| "set_titles (it # rest) yaxes =
     (case get_yaxis yaxes (int (fst it)) columns_pr_page of
        Inl e \<Rightarrow> Inl e
      | Inr k \<Rightarrow> set_titles rest (yaxes[k := snd it]))"

text \<open>Lines 153 to 194: the figure of one shock label and one page of variable indices.\<close>

definition make_figure ::
  "(('g, 'v) point list \<Rightarrow> string list) \<Rightarrow> ('g, 'v) frame \<Rightarrow> string \<Rightarrow> nat list \<Rightarrow> py_error + ('g, 'v) figure" where
  "make_figure plot df label indices =
     (let data = filter (\<lambda>p. shock_label (pt_row p) = label \<and> variable_index (pt_row p) \<in> set indices)
                        (fr_points df);
          yaxes = plot data;
          oprs = map (\<lambda>p. operator (pt_row p)) (not_duplicated [] data)
      in case lookup_all yaxis_title_from_operator oprs of
           Inl e \<Rightarrow> Inl e
         | Inr yaxis_titles \<Rightarrow>
             (case set_titles (enumerate 0 yaxis_titles) yaxes of
                Inl e \<Rightarrow> Inl e
              | Inr titled \<Rightarrow> Inr \<lparr>fig_data = data, fig_yaxis_titles = titled\<rparr>))"

text \<open>\<^verbatim>\<open>f"{page_number}"\<close>: the decimal digits of a natural number.\<close>

definition digit_char :: "nat \<Rightarrow> char" where
  "digit_char d = char_of (48 + d)"

fun str_nat :: "nat \<Rightarrow> string" where
  "str_nat n = (if n < 10 then [digit_char n] else str_nat (n div 10) @ [digit_char (n mod 10)])"

declare str_nat.simps [simp del]

definition figure_name :: "string \<Rightarrow> nat \<Rightarrow> string" where
  "figure_name label page_number = label @ '' '' @ str_nat page_number"

definition image_path :: "string \<Rightarrow> string" where
  "image_path name = output_folder @ ''/'' @ name @ output_extension"

text \<open>\<^verbatim>\<open>figures[figure_name] = fig\<close> on an insertion-ordered dictionary: a key already
  present keeps its place and takes the new value, a new key goes last.\<close>

fun dict_set :: "('k \<times> 'v) list \<Rightarrow> 'k \<Rightarrow> 'v \<Rightarrow> ('k \<times> 'v) list" where
  "dict_set [] k v = [(k, v)]"
| "dict_set (kv # d) k v = (if fst kv = k then (k, v) # d else kv # dict_set d k v)"

text \<open>The dictionary \<^verbatim>\<open>figures\<close> and the image files written so far, in writing order.\<close>

record ('g, 'v) render_state =
  figures :: "(string \<times> ('g, 'v) figure) list"
  images :: "(string \<times> ('g, 'v) figure) list"

text \<open>Lines 153 to 198: the body of the page loop.\<close>

definition render_page ::
  "(('g, 'v) point list \<Rightarrow> string list) \<Rightarrow> ('g, 'v) frame \<Rightarrow> string \<Rightarrow> nat \<times> nat list
     \<Rightarrow> ('g, 'v) render_state \<Rightarrow> py_error + ('g, 'v) render_state" where
  "render_page plot df label page rs =
     (case make_figure plot df label (snd page) of
        Inl e \<Rightarrow> Inl e
      | Inr fig \<Rightarrow>
          Inr (rs\<lparr>figures := dict_set (figures rs) (figure_name label (fst page)) fig,
                  images := images rs @ [(image_path (figure_name label (fst page)), fig)]\<rparr>))"

fun page_loop ::
  "(('g, 'v) point list \<Rightarrow> string list) \<Rightarrow> ('g, 'v) frame \<Rightarrow> string \<Rightarrow> (nat \<times> nat list) list
     \<Rightarrow> ('g, 'v) render_state \<Rightarrow> py_error + ('g, 'v) render_state" where
  "page_loop plot df label [] rs = Inr rs"
| "page_loop plot df label (page # rest) rs =
     (case render_page plot df label page rs of
        Inl e \<Rightarrow> Inl e
      | Inr rs1 \<Rightarrow> page_loop plot df label rest rs1)"

text \<open>Lines 151 to 198: \<^verbatim>\<open>for shock_label in df.shock_label.unique(): for page_number,
  variable_index in enumerate(indices_by_page, 1): ...\<close>\<close>

fun label_loop ::
  "(('g, 'v) point list \<Rightarrow> string list) \<Rightarrow> ('g, 'v) frame \<Rightarrow> nat list list \<Rightarrow> string list
     \<Rightarrow> ('g, 'v) render_state \<Rightarrow> py_error + ('g, 'v) render_state" where
  "label_loop plot df indices_by_page [] rs = Inr rs"
| "label_loop plot df indices_by_page (label # rest) rs =
     (case page_loop plot df label (enumerate 1 indices_by_page) rs of
        Inl e \<Rightarrow> Inl e
      | Inr rs1 \<Rightarrow> label_loop plot df indices_by_page rest rs1)"

section \<open>The whole run\<close>

text \<open>
  What the script leaves behind: the table of line 106, the frame \<^verbatim>\<open>df\<close>, the pages, the
  dictionary \<^verbatim>\<open>figures\<close>, the image files written, the figures handed to the HTML and to
  the PDF export, the database calls and the printed lines.
\<close>

record ('g, 'v) run_output =
  out_data :: "'g table"
  out_df :: "('g, 'v) frame"
  out_indices_by_page :: "nat list list"
  out_figures :: "(string \<times> ('g, 'v) figure) list"
  out_images :: "(string \<times> ('g, 'v) figure) list"
  out_html :: "('g, 'v) figure list"
  out_pdf :: "('g, 'v) figure list"
  out_opened :: "string list"
  out_stdout :: "string list"

text \<open>
  The script from top to bottom. Lines 30 and 41 unpack \<^verbatim>\<open>zip(*gdx_folders_info)\<close> and
  \<^verbatim>\<open>zip(*variations_info)\<close> into two and three names, which raises ValueError when the
  list is empty. An exception of the loop of lines 71 to 105 or of the extraction of
  line 115 ends the run. Line 136 reads \<^verbatim>\<open>df.variable_index\<close> and line 151 \<^verbatim>\<open>df.shock_label\<close>;
  the selections inside the loop read the same columns again.
\<close>

definition run ::
  "'g config \<Rightarrow> string set \<Rightarrow> ('g, 'v) extractor
     \<Rightarrow> (('g, 'v) point list \<Rightarrow> string list) \<Rightarrow> py_error + ('g, 'v) run_output" where
  "run cfg files dt_DataFrame plot =
     (if gdx_folders_info cfg = [] then Inl ValueError
      else if variations_info cfg = [] then Inl ValueError
      else case build_data cfg files of
        Inl e \<Rightarrow> Inl e
      | Inr st \<Rightarrow>
          (let data = pd_DataFrame (st_data st)
           in case make_df dt_DataFrame data of
                Inl e \<Rightarrow> Inl e
              | Inr df \<Rightarrow>
           (case column df ''variable_index'' (\<lambda>p. variable_index (pt_row p)) of
                Inl e \<Rightarrow> Inl e
              | Inr vis \<Rightarrow>
                  (case divide_chunks (unique vis) plots_pr_page of
                     Inl e \<Rightarrow> Inl e
                   | Inr indices_by_page \<Rightarrow>
                       (case column df ''shock_label'' (\<lambda>p. shock_label (pt_row p)) of
                          Inl e \<Rightarrow> Inl e
                        | Inr labels \<Rightarrow>
                            (case label_loop plot df indices_by_page (unique labels)
                                    \<lparr>figures = [], images = []\<rparr> of
                               Inl e \<Rightarrow> Inl e
                             | Inr rs \<Rightarrow>
                                 Inr \<lparr>out_data = data, out_df = df,
                                      out_indices_by_page = indices_by_page,
                                      out_figures = figures rs,
                                      out_images = images rs,
                                      out_html = map snd (figures rs),
                                      out_pdf = map snd (figures rs),
                                      out_opened = st_opened st,
                                      out_stdout = st_stdout st\<rparr>))))))"

section \<open>Auxiliary notions of the proofs\<close>

definition grid :: "(nat \<Rightarrow> nat \<Rightarrow> 'a) \<Rightarrow> nat \<Rightarrow> nat \<Rightarrow> 'a list" where
  "grid g C R = concat (map (\<lambda>r. map (g r) [0..<C]) [0..<R])"


definition tails_ok :: "'g config \<Rightarrow> 'g build_state \<Rightarrow> bool" where
  "tails_ok cfg st \<longleftrightarrow>
     length (st_variable_labels st) = length (variable_labels cfg)
   \<and> tl (st_variable_labels st) = tl (variable_labels cfg)
   \<and> length (st_get_variable_functions st) = length (get_variable_functions cfg)
   \<and> tl (st_get_variable_functions st) = tl (get_variable_functions cfg)
   \<and> length (st_operators st) = length (operators cfg)
   \<and> tl (st_operators st) = tl (operators cfg)"

definition extends :: "'g build_state \<Rightarrow> 'g build_state \<Rightarrow> 'g row list \<Rightarrow> string list \<Rightarrow> string list \<Rightarrow> bool" where
  "extends st st' rows paths lines \<longleftrightarrow>
     st_data st' = st_data st @ rows
   \<and> st_opened st' = st_opened st @ paths
   \<and> st_stdout st' = st_stdout st @ lines"


definition shock_paths :: "'g config \<Rightarrow> string \<Rightarrow> (string \<times> string \<times> 'g plot_info) list \<Rightarrow> string list" where
  "shock_paths cfg f entries =
     concat (map (\<lambda>entry. map (\<lambda>var. gdx_path f (fst entry) (fst var)) (variations cfg)) entries)"

definition block_ok :: "string \<times> string \<Rightarrow> nat \<Rightarrow> 'g build_state \<Rightarrow> 'g build_state \<Rightarrow> 'g row list \<Rightarrow> bool" where
  "block_ok fl bl st st' rows \<longleftrightarrow>
     (\<forall>r \<in> set rows. folder r = fst fl \<and> baseline r = bl
        \<and> length (st_opened st) \<le> database r
        \<and> database r < length (st_opened st')
        \<and> st_opened st' ! database r = gdx_path (folder r) (shock_name r) (variation r))"


definition folder_rows_ok :: "'g build_state \<Rightarrow> 'g build_state \<Rightarrow> (string \<times> string) list \<Rightarrow> 'g row list \<Rightarrow> bool" where
  "folder_rows_ok st st' fls rows \<longleftrightarrow>
     (\<forall>r \<in> set rows. folder r \<in> fst ` set fls
        \<and> length (st_opened st) \<le> baseline r
        \<and> baseline r < length (st_opened st')
        \<and> st_opened st' ! baseline r = baseline_path (folder r)
        \<and> database r < length (st_opened st')
        \<and> st_opened st' ! database r = gdx_path (folder r) (shock_name r) (variation r))
   \<and> (distinct (map fst fls) \<longrightarrow>
        (\<forall>r1 \<in> set rows. \<forall>r2 \<in> set rows. folder r1 = folder r2 \<longrightarrow> baseline r1 = baseline r2))"


definition example_config :: "nat config" where
  "example_config =
     \<lparr>gdx_folders_info = [(''Gdx'', ''''), (''Old'', ''old'')],
      variations_info = [(''_blip'', ''Blip'', ''Blip'')],
      shock_names = [''a'', ''b''],
      shock_labels_DA = [''A'', ''B''],
      shock_labels_EN = [''A'', ''B''],
      shock_specific_plot_info = [(''la'', ''la'', 10, ''pq''), (''lb'', ''lb'', 20, ''pm'')],
      variable_labels_DK = [''v0'', ''v1''],
      variable_labels_EN = [''v0'', ''v1''],
      get_variable_functions = [0, 1],
      operators = [''pq'', ''pm'']\<rparr>"

definition example_files :: "string set" where
  "example_files = {baseline_path ''Gdx'', baseline_path ''Old'',
                    gdx_path ''Gdx'' ''a'' ''_blip'', gdx_path ''Old'' ''a'' ''_blip'',
                    gdx_path ''Gdx'' ''b'' ''_blip''}"

definition example_row :: "nat \<Rightarrow> string \<times> string \<Rightarrow> nat \<Rightarrow> nat \<Rightarrow> string \<times> nat \<times> string \<Rightarrow> nat row" where
  "example_row i fl db bl x =
     \<lparr>variable_index = i, folder = fst fl, folder_label = snd fl,
      shock_name = ''a'', shock_label = ''A'', variation = ''_blip'', variation_label = ''Blip'',
      database = db, baseline = bl, getter = fst (snd x), variable_label = fst x,
      operator = snd (snd x)\<rparr>"

definition example_state :: "nat build_state" where
  "example_state =
     \<lparr>st_data = [example_row 0 (''Gdx'', '''') 1 0 (''la'', 10, ''pq''),
                 example_row 1 (''Gdx'', '''') 1 0 (''v1'', 1, ''pm''),
                 example_row 0 (''Old'', ''old'') 3 2 (''la'', 10, ''pq''),
                 example_row 1 (''Old'', ''old'') 3 2 (''v1'', 1, ''pm'')],
      st_variable_labels = [''la'', ''v1''],
      st_get_variable_functions = [10, 1],
      st_operators = [''pq'', ''pm''],
      st_opened = [baseline_path ''Gdx'', gdx_path ''Gdx'' ''a'' ''_blip'',
                   baseline_path ''Old'', gdx_path ''Old'' ''a'' ''_blip''],
      st_stdout = [skip_message ''b'', skip_message ''b'']\<rparr>"


definition job_done ::
  "(('g, 'v) point list \<Rightarrow> string list) \<Rightarrow> ('g, 'v) frame \<Rightarrow> string \<times> ('g, 'v) figure
     \<Rightarrow> string \<times> nat \<times> nat list \<Rightarrow> bool" where
  "job_done plot df entry job \<longleftrightarrow>
     fst entry = figure_name (fst job) (fst (snd job))
   \<and> make_figure plot df (fst job) (snd (snd job)) = Inr (snd entry)"

definition page_jobs :: "string \<Rightarrow> (nat \<times> nat list) list \<Rightarrow> (string \<times> nat \<times> nat list) list" where
  "page_jobs label pages = map (\<lambda>page. (label, fst page, snd page)) pages"

definition all_jobs :: "string list \<Rightarrow> nat list list \<Rightarrow> (string \<times> nat \<times> nat list) list" where
  "all_jobs labels indices_by_page =
     concat (map (\<lambda>label. page_jobs label (enumerate 1 indices_by_page)) labels)"

definition as_image :: "string \<times> ('g, 'v) figure \<Rightarrow> string \<times> ('g, 'v) figure" where
  "as_image entry = (image_path (fst entry), snd entry)"


definition df_labels :: "('g, 'v) frame \<Rightarrow> string list" where
  "df_labels df = unique (map (\<lambda>p. shock_label (pt_row p)) (fr_points df))"

definition df_indices :: "('g, 'v) frame \<Rightarrow> nat list" where
  "df_indices df = unique (map (\<lambda>p. variable_index (pt_row p)) (fr_points df))"


definition facet_yaxes :: "('g, 'v) point list \<Rightarrow> string list" where
  "facet_yaxes data =
     (let k = length (remdups (map (\<lambda>p. variable_label (pt_row p)) data))
      in replicate (((k + 2) div 3) * min 3 k) ''Multiplier'')"

definition example_values :: "(nat, int) extractor" where
  "example_values db opr g bl = Inr (\<lambda>t. int db + t)"


definition page_names :: "string list \<Rightarrow> nat \<Rightarrow> string list" where
  "page_names labels n = concat (map (\<lambda>l. map (figure_name l) [1..<Suc n]) labels)"


definition example_files_all :: "string set" where
  "example_files_all = insert (gdx_path ''Old'' ''b'' ''_blip'') example_files"

definition merged_config :: "nat config" where
  "merged_config = example_config\<lparr>shock_labels_DA := [''A'', ''A'']\<rparr>"


definition skipped_config :: "nat config" where
  "skipped_config = example_config\<lparr>shock_names := [''b''], shock_labels_DA := [''B''],
      shock_specific_plot_info := [(''lb'', ''lb'', 20, ''pm'')]\<rparr>"


text \<open>The number of variables of a page plan: the rows that
  \<^verbatim>\<open>zip(variable_labels, get_variable_functions, operators)\<close> yields for one combination.\<close>

definition n_variables :: "'g config \<Rightarrow> nat" where
  "n_variables cfg =
     length (zip (variable_labels cfg) (zip (get_variable_functions cfg) (operators cfg)))"


section \<open>Properties of the pagination planner\<close>

lemma py_slice_nat: "py_slice l (int a) (int a + int m) = take m (drop a l)"
proof (cases "a \<le> length l")
  case True
  have "slice_bound (length l) (int a) = a" using True by (simp add: slice_bound_def)
  moreover have "slice_bound (length l) (int a + int m) = min (a + m) (length l)"
    by (simp add: slice_bound_def nat_add_distrib)
  ultimately show ?thesis using True
    by (simp add: py_slice_def min_def) 
next
  case False
  then show ?thesis by (simp add: py_slice_def slice_bound_def)
qed

lemma py_slice_nat_mult:
  "py_slice l (int k * int m) (int k * int m + int m) = take m (drop (k * m) l)"
  using py_slice_nat [of l "k * m" m] by simp

lemma ceil_nat_int:
  assumes "0 < m"
  shows "nat ((int len - 0 + int m - 1) div int m) = (len + m - 1) div m"
proof -
  have e: "int len - 0 + int m - 1 = int (len + m - 1)" using assms by (simp add: of_nat_diff)
  have "nat (int (len + m - 1) div int m) = (len + m - 1) div m"
    by (metis zdiv_int nat_int)
  then show ?thesis unfolding e .
qed

lemma py_range3_pos:
  assumes "0 < m"
  shows "py_range3 0 (int len) (int m) = Inr (map (\<lambda>k. int k * int m) [0..<(len + m - 1) div m])"
proof -
  have "0 < int m" "int m \<noteq> 0" using assms by simp_all
  then show ?thesis unfolding py_range3_def ceil_nat_int [OF assms] by simp
qed

lemma divide_chunks_pos:
  assumes "0 < m"
  shows "divide_chunks l (int m) = Inr (map (\<lambda>k. take m (drop (k * m) l)) [0..<(length l + m - 1) div m])"
  using assms by (simp add: divide_chunks_def py_range3_pos py_slice_nat_mult o_def)

lemma concat_chunks_take:
  "concat (map (\<lambda>k. take m (drop (k * m) l)) [0..<j]) = take (j * m) l"
proof (induction j)
  case 0
  then show ?case by simp
next
  case (Suc j)
  have "take (j * m + m) l = take (j * m) l @ take m (drop (j * m) l)"
    by (simp add: take_add)
  then show ?case using Suc by (simp add: add.commute)
qed

lemma ceil_covers: "0 < (m::nat) \<Longrightarrow> len \<le> ((len + m - 1) div m) * m"
proof -
  assume m: "0 < m"
  have "len + m - 1 = ((len + m - 1) div m) * m + (len + m - 1) mod m" by simp
  moreover have "(len + m - 1) mod m \<le> m - 1" using m
    by (metis Suc_pred' less_Suc_eq_le mod_less_divisor)
  ultimately show ?thesis using m by linarith
qed

lemma ceil_tight: "0 < (m::nat) \<Longrightarrow> k < (len + m - 1) div m \<Longrightarrow> k * m < len"
proof -
  assume m: "0 < m" and k: "k < (len + m - 1) div m"
  from k have "Suc k \<le> (len + m - 1) div m" by simp
  then have "Suc k * m \<le> ((len + m - 1) div m) * m" by (rule mult_le_mono1)
  also have "\<dots> \<le> len + m - 1" by simp
  finally show ?thesis using m by simp
qed

text \<open>
  Claim C4. For every list \<open>l\<close> and every chunk size \<open>n > 0\<close>, \<open>divide_chunks l n\<close>
  returns chunks whose concatenation, in order, is exactly \<open>l\<close>; every chunk has between
  1 and \<open>n\<close> elements, every chunk but the last has exactly \<open>n\<close>, and there are
  \<open>ceil (len l / n)\<close> of them. The result is a function of \<open>l\<close> and \<open>n\<close> alone.
\<close>

theorem divide_chunks_partition:
  assumes "0 < n"
  shows "\<exists>cs. divide_chunks l n = Inr cs \<and> concat cs = l
           \<and> (\<forall>c \<in> set cs. 1 \<le> length c \<and> int (length c) \<le> n)
           \<and> (\<forall>k. Suc k < length cs \<longrightarrow> int (length (cs ! k)) = n)
           \<and> length cs = (length l + nat n - 1) div nat n"
proof -
  define m where "m = nat n"
  have m: "0 < m" and n: "n = int m" using assms by (simp_all add: m_def)
  define cs where "cs = map (\<lambda>k. take m (drop (k * m) l)) [0..<(length l + m - 1) div m]"
  have 1: "divide_chunks l n = Inr cs" unfolding n cs_def by (rule divide_chunks_pos [OF m])
  have 2: "concat cs = l" unfolding cs_def concat_chunks_take using ceil_covers [OF m, of "length l"] by simp
  have 3: "1 \<le> length c \<and> int (length c) \<le> n" if "c \<in> set cs" for c
  proof -
    from that obtain k where k: "k < (length l + m - 1) div m" and c: "c = take m (drop (k * m) l)"
      by (auto simp: cs_def)
    from ceil_tight [OF m k] show ?thesis using m by (simp add: c n)
  qed
  have 4: "int (length (cs ! k)) = n" if "Suc k < length cs" for k
  proof -
    from that have "Suc k < (length l + m - 1) div m" by (simp add: cs_def)
    from ceil_tight [OF m this] have "k * m + m < length l" by simp
    moreover have "cs ! k = take m (drop (k * m) l)" using that by (simp add: cs_def)
    ultimately show ?thesis by (simp add: n)
  qed
  have 5: "length cs = (length l + nat n - 1) div nat n" by (simp add: cs_def m_def)
  from 1 2 3 4 5 show ?thesis by blast
qed

theorem divide_chunks_partition_witness:
  "(0::int) < 2 \<and> (\<exists>cs. divide_chunks ''abcde'' 2 = Inr cs \<and> concat cs = ''abcde''
           \<and> (\<forall>c \<in> set cs. 1 \<le> length c \<and> int (length c) \<le> 2)
           \<and> (\<forall>k. Suc k < length cs \<longrightarrow> int (length (cs ! k)) = 2)
           \<and> length cs = 3)"
  using divide_chunks_partition [of 2 "''abcde''"] by (simp add: numeral_3_eq_3)

lemma py_range_map: "py_range k = map int [0..<nat k]"
  by (rule nth_equalityI) (simp_all add: py_range_def)

lemma grid_Suc: "grid g C (Suc R) = grid g C R @ map (g R) [0..<C]"
  by (simp add: grid_def)

lemma length_grid: "length (grid g C R) = R * C"
  by (induction R) (simp_all add: grid_Suc, simp add: grid_def)

lemma facet_idx_grid:
  "facet_idx n (int C) (int R) = grid (\<lambda>r c. n - ((1 + int r) * int C - int c)) C R"
  by (simp add: facet_idx_def py_range_map grid_def o_def)

lemma mset_concat_rev: "mset (concat (rev xss)) = mset (concat xss)"
  by (induction xss) simp_all


lemma nth_grid: "i < R * C \<Longrightarrow> grid g C R ! i = g (i div C) (i mod C)"
proof (induction R)
  case 0
  then show ?case by simp
next
  case (Suc R)
  show ?case
  proof (cases "i < R * C")
    case True
    then show ?thesis using Suc.IH by (simp add: grid_Suc nth_append length_grid)
  next
    case False
    then have lo: "R * C \<le> i" by simp
    from Suc.prems have hi: "i < R * C + C" by (simp add: add.commute)
    have C: "0 < C" using lo hi by simp
    have d: "i div C = R"
      by (rule div_nat_eqI) (use lo hi in \<open>simp_all add: mult.commute\<close>)
    have m: "i mod C = i - R * C"
      using d by (metis add_diff_cancel_left' mult.commute mult_div_mod_eq)
    have "i - R * C < C" using lo hi by simp
    then show ?thesis using False by (simp add: grid_Suc nth_append length_grid d m)
  qed
qed

lemma grid_rev_rows: "grid (\<lambda>r. g (R - 1 - r)) C R = concat (rev (map (\<lambda>r. map (g r) [0..<C]) [0..<R]))"
proof -
  have "map (\<lambda>r. map (g (R - 1 - r)) [0..<C]) [0..<R] = rev (map (\<lambda>r. map (g r) [0..<C]) [0..<R])"
    by (rule nth_equalityI) (simp_all add: rev_nth)
  then show ?thesis by (simp add: grid_def)
qed


lemma grid_rows_upt: "grid (\<lambda>r c. r * C + c) C R = [0..<R * C]"
proof (induction R)
  case 0
  then show ?case by (simp add: grid_def)
next
  case (Suc R)
  have "map (\<lambda>c. R * C + c) [0..<C] = [R * C..<R * C + C]"
    using map_add_upt [of "R * C" C] by (simp add: add.commute)
  moreover have "[0..<R * C + C] = [0..<R * C] @ [R * C..<R * C + C]"
    by (rule upt_add_eq_append) simp
  ultimately show ?case using Suc by (simp add: grid_Suc add.commute [of C])
qed


lemma mset_grid_rev: "mset (grid (\<lambda>r c. (R - 1 - r) * C + c) C R) = mset [0..<R * C]"
proof -
  have "grid (\<lambda>r c. (R - 1 - r) * C + c) C R = concat (rev (map (\<lambda>r. map (\<lambda>c. r * C + c) [0..<C]) [0..<R]))"
    by (rule grid_rev_rows [of "\<lambda>r c. r * C + c"])
  then have "mset (grid (\<lambda>r c. (R - 1 - r) * C + c) C R) = mset (grid (\<lambda>r c. r * C + c) C R)"
    by (simp only: mset_concat_rev grid_def)
  then show ?thesis by (simp only: grid_rows_upt)
qed


lemma facet_idx_exact:
  "facet_idx (int (R * C)) (int C) (int R) = map int (grid (\<lambda>r c. (R - 1 - r) * C + c) C R)"
proof (rule nth_equalityI)
  show "length (facet_idx (int (R * C)) (int C) (int R)) = length (map int (grid (\<lambda>r c. (R - 1 - r) * C + c) C R))"
    by (simp add: facet_idx_grid length_grid)
next
  fix i assume "i < length (facet_idx (int (R * C)) (int C) (int R))"
  then have i: "i < R * C" by (simp add: facet_idx_grid length_grid)
  then have C: "0 < C" by (cases C) simp_all
  have q: "i div C < R" using i C by (simp add: less_mult_imp_div_less)
  then have "R = Suc (i div C) + (R - 1 - i div C)" by simp
  then have "R * C = Suc (i div C) * C + (R - 1 - i div C) * C"
    by (metis add_mult_distrib)
  then have "int (R * C) = (1 + int (i div C)) * int C + int ((R - 1 - i div C) * C)"
    by (metis of_nat_Suc of_nat_add of_nat_mult add.commute)
  then have e: "int (R * C) - ((1 + int (i div C)) * int C - int (i mod C)) = int ((R - 1 - i div C) * C + i mod C)"
    by simp
  have "facet_idx (int (R * C)) (int C) (int R) ! i = int (R * C) - ((1 + int (i div C)) * int C - int (i mod C))"
    using i by (simp only: facet_idx_grid nth_grid)
  moreover have "map int (grid (\<lambda>r c. (R - 1 - r) * C + c) C R) ! i = int ((R - 1 - i div C) * C + i mod C)"
    using i by (simp only: nth_map length_grid nth_grid)
  ultimately show "facet_idx (int (R * C)) (int C) (int R) ! i = map int (grid (\<lambda>r c. (R - 1 - r) * C + c) C R) ! i"
    using e by simp
qed


lemma py_pos_nat: "k < length xs \<Longrightarrow> py_pos xs (int k) = Inr k"
  by (simp add: py_pos_def)

lemma py_pos_beyond: "int (length xs) \<le> i \<Longrightarrow> py_pos xs i = Inl IndexError"
  by (simp add: py_pos_def)

lemma get_yaxis_cols:
  assumes "0 < C" and "min w (int (length yaxes)) = int C"
  shows "get_yaxis yaxes i w =
    (case py_index (facet_idx (int (length yaxes)) (int C) (int (length yaxes div C))) i of
       Inl e \<Rightarrow> Inl e | Inr k \<Rightarrow> py_pos yaxes k)"
  using assms by (simp add: get_yaxis_def Let_def zdiv_int)

lemma get_yaxis_beyond:
  assumes "0 < C" and "min w (int (length yaxes)) = int C"
    and "int (length yaxes div C * C) \<le> i"
  shows "get_yaxis yaxes i w = Inl IndexError"
proof -
  have "py_pos (facet_idx (int (length yaxes)) (int C) (int (length yaxes div C))) i = Inl IndexError"
    by (rule py_pos_beyond) (use assms(3) in \<open>simp add: facet_idx_grid length_grid\<close>)
  then show ?thesis by (simp add: get_yaxis_cols [OF assms(1,2)] py_index_def)
qed

lemma grid_cell_less:
  assumes "j < R * (C::nat)"
  shows "(R - 1 - j div C) * C + j mod C < R * C"
proof -
  from assms have C: "0 < C" by (cases C) simp_all
  have q: "j div C < R" using assms C by (simp add: less_mult_imp_div_less)
  have "(R - 1 - j div C) * C \<le> (R - 1) * C" by (rule mult_le_mono1) simp
  moreover have "j mod C < C" using C by simp
  moreover have "(R - 1) * C + C = R * C" using q by (cases R) simp_all
  ultimately show ?thesis by linarith
qed

lemma get_yaxis_exact:
  assumes "0 < C" and "min w (int (length yaxes)) = int C"
    and "length yaxes = R * C" and "j < R * C"
  shows "get_yaxis yaxes (int j) w = Inr ((R - 1 - j div C) * C + j mod C)"
proof -
  have R: "length yaxes div C = R" using assms(1,3) by simp
  let ?idx = "facet_idx (int (length yaxes)) (int C) (int (length yaxes div C))"
  have "?idx = facet_idx (int (R * C)) (int C) (int R)"
    using assms(1) by (simp add: assms(3))
  then have idx: "?idx = map int (grid (\<lambda>r c. (R - 1 - r) * C + c) C R)"
    by (simp only: facet_idx_exact)
  have len: "j < length ?idx" using assms(4) by (simp add: idx length_grid)
  have "py_index ?idx (int j) = Inr (?idx ! j)"
    using py_pos_nat [OF len] by (simp add: py_index_def)
  also have "?idx ! j = int ((R - 1 - j div C) * C + j mod C)"
    using assms(4) by (simp add: idx length_grid nth_grid)
  finally have "get_yaxis yaxes (int j) w = py_pos yaxes (int ((R - 1 - j div C) * C + j mod C))"
    by (simp add: get_yaxis_cols [OF assms(1,2)])
  also have "\<dots> = Inr ((R - 1 - j div C) * C + j mod C)"
    by (rule py_pos_nat) (use grid_cell_less [OF assms(4)] assms(3) in simp)
  finally show ?thesis .
qed


text \<open>
  Claim C10. For a figure with \<open>n > 0\<close> y-axes and a positive \<open>facet_col_wrap\<close>, with
  \<open>n_cols = min facet_col_wrap n\<close> and \<open>n_rows = n div n_cols\<close>: the index list built in
  \<open>get_yaxis\<close> has \<open>n_rows * n_cols\<close> elements. When \<open>n\<close> is a multiple of \<open>n_cols\<close> the list
  is a permutation of \<open>0, ..., n - 1\<close>, and every call with \<open>0 \<le> i < n\<close> returns the axis at
  position \<open>(n_rows - 1 - i div n_cols) * n_cols + i mod n_cols\<close>: facet row \<open>r\<close> from the
  top is axis row \<open>n_rows - 1 - r\<close> from the bottom. When \<open>n\<close> is not a multiple of \<open>n_cols\<close>
  the list is shorter than \<open>n\<close>, and every call with \<open>i \<ge> n_rows * n_cols\<close> raises IndexError.
\<close>

theorem get_yaxis_facet_index:
  assumes "yaxes \<noteq> []" and "0 < facet_col_wrap"
  shows "let n = int (length yaxes); n_cols = min facet_col_wrap n; n_rows = n div n_cols;
             idx = facet_idx n n_cols n_rows
         in int (length idx) = n_rows * n_cols
          \<and> (n mod n_cols = 0 \<longrightarrow>
               mset idx = mset [0..n - 1]
             \<and> (\<forall>i. 0 \<le> i \<and> i < n \<longrightarrow>
                   get_yaxis yaxes i facet_col_wrap
                     = Inr (nat ((n_rows - 1 - i div n_cols) * n_cols + i mod n_cols))
                 \<and> nat ((n_rows - 1 - i div n_cols) * n_cols + i mod n_cols) < length yaxes))
          \<and> (n mod n_cols \<noteq> 0 \<longrightarrow> n_rows * n_cols < n)
          \<and> (\<forall>i. n_rows * n_cols \<le> i \<longrightarrow> get_yaxis yaxes i facet_col_wrap = Inl IndexError)"
proof -
  define N where "N = length yaxes"
  define C where "C = nat (min facet_col_wrap (int N))"
  define R where "R = N div C"
  have N: "0 < N" using assms(1) by (simp add: N_def)
  have C: "0 < C" using assms(2) N by (simp add: C_def)
  have cols: "min facet_col_wrap (int (length yaxes)) = int C"
    using assms(2) N by (simp add: C_def N_def)
  have rows: "int (length yaxes) div int C = int R"
    by (simp add: R_def N_def zdiv_int)
  have 1: "int (length (facet_idx (int N) (int C) (int R))) = int R * int C"
    by (simp add: facet_idx_grid length_grid)
  have 4: "\<forall>i. int R * int C \<le> i \<longrightarrow> get_yaxis yaxes i facet_col_wrap = Inl IndexError"
  proof (intro allI impI)
    fix i assume "int R * int C \<le> i"
    then show "get_yaxis yaxes i facet_col_wrap = Inl IndexError"
      by (intro get_yaxis_beyond [OF C cols]) (simp add: R_def N_def)
  qed
  have 3: "int N mod int C \<noteq> 0 \<longrightarrow> int R * int C < int N"
  proof
    assume that: "int N mod int C \<noteq> 0"
    from that have "N mod C \<noteq> 0" by (simp add: zmod_int [symmetric])
    moreover have "R * C + N mod C = N" by (simp add: R_def)
    ultimately have "R * C < N" by linarith
    then show "int R * int C < int N" by (metis of_nat_less_iff of_nat_mult)
  qed
  have 2: "int N mod int C = 0 \<longrightarrow> mset (facet_idx (int N) (int C) (int R)) = mset [0..int N - 1]
         \<and> (\<forall>i. 0 \<le> i \<and> i < int N \<longrightarrow>
               get_yaxis yaxes i facet_col_wrap
                 = Inr (nat ((int R - 1 - i div int C) * int C + i mod int C))
             \<and> nat ((int R - 1 - i div int C) * int C + i mod int C) < length yaxes)"
  proof
    assume that: "int N mod int C = 0"
    from that have "N mod C = 0" by (simp add: zmod_int [symmetric])
    then have NRC: "N = R * C" using div_mult_mod_eq [of N C] by (simp add: R_def)
    have "mset (facet_idx (int N) (int C) (int R)) = mset (map int [0..<R * C])"
      unfolding NRC facet_idx_exact mset_map mset_grid_rev ..
    also have "\<dots> = mset [0..int N - 1]"
      using py_range_map [of "int N"] by (simp add: py_range_def NRC [symmetric])
    finally have a: "mset (facet_idx (int N) (int C) (int R)) = mset [0..int N - 1]" .
    have b: "get_yaxis yaxes i facet_col_wrap
                 = Inr (nat ((int R - 1 - i div int C) * int C + i mod int C))
             \<and> nat ((int R - 1 - i div int C) * int C + i mod int C) < length yaxes"
      if i: "0 \<le> i" "i < int N" for i
    proof -
      define j where "j = nat i"
      have ij: "i = int j" and j: "j < R * C" using i by (simp_all add: j_def NRC [symmetric])
      have q: "j div C < R" using j C by (simp add: less_mult_imp_div_less)
      have "int R - 1 - int (j div C) = int (R - 1 - j div C)" using q by simp
      then have "(int R - 1 - int j div int C) * int C + int j mod int C
                   = int ((R - 1 - j div C) * C + j mod C)"
        by (simp add: zdiv_int zmod_int)
      then have e: "nat ((int R - 1 - int j div int C) * int C + int j mod int C)
                   = (R - 1 - j div C) * C + j mod C"
        by (simp only: nat_int)
      have len: "length yaxes = R * C" using NRC by (simp add: N_def)
      show ?thesis
        unfolding ij e using get_yaxis_exact [OF C cols len j] grid_cell_less [OF j]
        by (simp add: len)
    qed
    from a b show "mset (facet_idx (int N) (int C) (int R)) = mset [0..int N - 1]
         \<and> (\<forall>i. 0 \<le> i \<and> i < int N \<longrightarrow>
               get_yaxis yaxes i facet_col_wrap
                 = Inr (nat ((int R - 1 - i div int C) * int C + i mod int C))
             \<and> nat ((int R - 1 - i div int C) * int C + i mod int C) < length yaxes)"
      by (intro conjI allI impI) simp_all
  qed
  from 1 2 3 4 show ?thesis
    unfolding Let_def cols rows N_def by (intro conjI)
qed

theorem get_yaxis_facet_index_witness:
  "''abcdef'' \<noteq> [] \<and> ''abcdefg'' \<noteq> [] \<and> (0::int) < 3
   \<and> get_yaxis ''abcdef'' 0 3 = Inr 3
   \<and> get_yaxis ''abcdef'' 5 3 = Inr 2
   \<and> length (facet_idx 7 3 2) = 6
   \<and> get_yaxis ''abcdefg'' 6 3 = Inl IndexError"
proof -
  have h6: "''abcdef'' \<noteq> []" and h7: "''abcdefg'' \<noteq> []" and w: "(0::int) < 3"
    by simp_all
  have six: "\<forall>i. 0 \<le> i \<and> i < 6 \<longrightarrow>
      get_yaxis ''abcdef'' i 3 = Inr (nat ((2 - 1 - i div 3) * 3 + i mod 3))"
    using get_yaxis_facet_index [OF h6 w] by (simp add: Let_def)
  have seven: "length (facet_idx 7 3 2) = 6
      \<and> (\<forall>i. 6 \<le> i \<longrightarrow> get_yaxis ''abcdefg'' i 3 = Inl IndexError)"
    using get_yaxis_facet_index [OF h7 w] by (simp add: Let_def)
  from six have "get_yaxis ''abcdef'' 0 3 = Inr 3" "get_yaxis ''abcdef'' 5 3 = Inr 2"
    by simp_all
  moreover from seven have "length (facet_idx 7 3 2) = 6"
    "get_yaxis ''abcdefg'' 6 3 = Inl IndexError" by simp_all
  ultimately show ?thesis by simp
qed


lemma variable_rows_erase:
  "map erase_handles (variable_rows fl sh var db bl st)
     = map (plain_row fl sh var)
         (enumerate 0 (zip (st_variable_labels st) (zip (st_get_variable_functions st) (st_operators st))))"
  by (simp add: variable_rows_def erase_handles_def plain_row_def split_def)

lemma variable_rows_fields:
  "r \<in> set (variable_rows fl sh var db bl st) \<Longrightarrow>
     folder r = fst fl \<and> shock_name r = fst sh \<and> variation r = fst var
   \<and> database r = db \<and> baseline r = bl"
  by (auto simp: variable_rows_def)

lemma Gdx_Inr:
  "Gdx files path st = Inr x \<Longrightarrow>
     path \<in> files \<and> x = (length (st_opened st), st\<lparr>st_opened := st_opened st @ [path]\<rparr>)"
  by (auto simp: Gdx_def split: if_splits)

lemma variation_loop_Cons:
  assumes "variation_loop files fl bl sh (var # vars) st = Inr st'"
  shows "gdx_path (fst fl) (fst sh) (fst var) \<in> files
       \<and> variation_loop files fl bl sh vars
            (st\<lparr>st_opened := st_opened st @ [gdx_path (fst fl) (fst sh) (fst var)],
                st_data := st_data st @ variable_rows fl sh var (length (st_opened st)) bl st\<rparr>)
           = Inr st'"
proof -
  from assms obtain x where
    g: "Gdx files (gdx_path (fst fl) (fst sh) (fst var)) st = Inr x"
    by (auto split: sum.splits)
  note G = Gdx_Inr [OF g]
  from assms show ?thesis
    unfolding variation_loop.simps g using G by (simp add: variable_rows_def)
qed

lemma variation_loop_lists:
  "variation_loop files fl bl sh vars st = Inr st' \<Longrightarrow>
     st_variable_labels st' = st_variable_labels st
   \<and> st_get_variable_functions st' = st_get_variable_functions st
   \<and> st_operators st' = st_operators st"
proof (induction vars arbitrary: st)
  case Nil
  then show ?case by simp
next
  case (Cons var vars)
  from variation_loop_Cons [OF Cons.prems] have
    "variation_loop files fl bl sh vars
            (st\<lparr>st_opened := st_opened st @ [gdx_path (fst fl) (fst sh) (fst var)],
                st_data := st_data st @ variable_rows fl sh var (length (st_opened st)) bl st\<rparr>)
           = Inr st'" by simp
  from Cons.IH [OF this] show ?case by simp
qed

lemma variation_loop_extends:
  assumes "variation_loop files fl bl sh vars st = Inr st'"
  shows "\<exists>rows. extends st st' rows
            (map (\<lambda>var. gdx_path (fst fl) (fst sh) (fst var)) vars) []
     \<and> map erase_handles rows
        = concat (map (\<lambda>var. map (plain_row fl sh var)
            (enumerate 0 (zip (st_variable_labels st)
                              (zip (st_get_variable_functions st) (st_operators st))))) vars)
     \<and> (\<forall>r \<in> set rows. folder r = fst fl \<and> shock_name r = fst sh \<and> baseline r = bl
           \<and> length (st_opened st) \<le> database r
           \<and> database r < length (st_opened st) + length vars
           \<and> (st_opened st @ map (\<lambda>var. gdx_path (fst fl) (fst sh) (fst var)) vars) ! database r
               = gdx_path (folder r) (shock_name r) (variation r))"
  using assms
proof (induction vars arbitrary: st)
  case Nil
  then show ?case by (simp add: extends_def)
next
  case (Cons var vars)
  let ?p = "gdx_path (fst fl) (fst sh) (fst var)"
  let ?new = "variable_rows fl sh var (length (st_opened st)) bl st"
  let ?st1 = "st\<lparr>st_opened := st_opened st @ [?p], st_data := st_data st @ ?new\<rparr>"
  from variation_loop_Cons [OF Cons.prems]
  have step: "variation_loop files fl bl sh vars ?st1 = Inr st'" by simp
  from Cons.IH [OF step] obtain rows where
    ext: "extends ?st1 st' rows
            (map (\<lambda>var. gdx_path (fst fl) (fst sh) (fst var)) vars) []"
    and er: "map erase_handles rows
        = concat (map (\<lambda>var. map (plain_row fl sh var)
            (enumerate 0 (zip (st_variable_labels st)
                              (zip (st_get_variable_functions st) (st_operators st))))) vars)"
    and fields: "\<forall>r \<in> set rows. folder r = fst fl \<and> shock_name r = fst sh \<and> baseline r = bl
           \<and> Suc (length (st_opened st)) \<le> database r
           \<and> database r < Suc (length (st_opened st)) + length vars
           \<and> ((st_opened st @ [?p]) @ map (\<lambda>var. gdx_path (fst fl) (fst sh) (fst var)) vars) ! database r
               = gdx_path (folder r) (shock_name r) (variation r)"
    by auto
  have 1: "extends st st' (?new @ rows)
            (map (\<lambda>var. gdx_path (fst fl) (fst sh) (fst var)) (var # vars)) []"
    using ext by (simp add: extends_def)
  have 2: "map erase_handles (?new @ rows)
        = concat (map (\<lambda>var. map (plain_row fl sh var)
            (enumerate 0 (zip (st_variable_labels st)
                              (zip (st_get_variable_functions st) (st_operators st))))) (var # vars))"
    using er by (simp add: variable_rows_erase)
  have 3: "folder r = fst fl \<and> shock_name r = fst sh \<and> baseline r = bl
           \<and> length (st_opened st) \<le> database r
           \<and> database r < length (st_opened st) + length (var # vars)
           \<and> (st_opened st @ map (\<lambda>var. gdx_path (fst fl) (fst sh) (fst var)) (var # vars)) ! database r
               = gdx_path (folder r) (shock_name r) (variation r)"
    if "r \<in> set (?new @ rows)" for r
  proof (cases "r \<in> set ?new")
    case True
    from variable_rows_fields [OF True] show ?thesis by (simp add: nth_append)
  next
    case False
    with that have "r \<in> set rows" by simp
    with fields show ?thesis by auto
  qed
  from 1 2 3 show ?case by blast
qed


lemma set_first_Inr: "set_first xs v = Inr ys \<Longrightarrow> xs \<noteq> [] \<and> ys = v # tl xs"
  by (cases xs) (simp_all add: set_first_def)

lemma override_first_Inr:
  assumes "override_first info st = Inr st1" and "tails_ok cfg st"
  shows "zip (st_variable_labels st1) (zip (st_get_variable_functions st1) (st_operators st1))
           = shock_variables cfg info
       \<and> tails_ok cfg st1 \<and> st_data st1 = st_data st \<and> st_opened st1 = st_opened st
       \<and> st_stdout st1 = st_stdout st"
proof -
  obtain lDK lEN g opr where info: "info = (lDK, lEN, g, opr)" by (cases info) auto
  from assms(1) obtain labels gs oprs where
    l: "set_first (st_variable_labels st) (if DA then lDK else lEN) = Inr labels" and
    g: "set_first (st_get_variable_functions st) g = Inr gs" and
    o: "set_first (st_operators st) opr = Inr oprs" and
    st1: "st1 = st\<lparr>st_variable_labels := labels, st_get_variable_functions := gs, st_operators := oprs\<rparr>"
    by (auto simp: override_first_def info split: sum.splits)
  note L = set_first_Inr [OF l] and G = set_first_Inr [OF g] and O = set_first_Inr [OF o]
  have "tails_ok cfg st1" using assms(2) L G O
    by (cases "st_variable_labels st"; cases "st_get_variable_functions st"; cases "st_operators st")
       (simp_all add: tails_ok_def st1)
  moreover have "zip (st_variable_labels st1) (zip (st_get_variable_functions st1) (st_operators st1))
           = shock_variables cfg info"
    using assms(2) L G O by (simp add: st1 shock_variables_def info tails_ok_def)
  ultimately show ?thesis by (simp add: st1)
qed

lemma shock_step_skip:
  "\<not> shock_files_exist cfg files (fst entry) \<Longrightarrow>
     shock_step cfg files fl bl entry st = Inr (st\<lparr>st_stdout := st_stdout st @ [skip_message (fst entry)]\<rparr>)"
  by (simp add: shock_step_def split_def)

lemma shock_step_summary:
  assumes "shock_step cfg files fl bl entry st = Inr st'" and "tails_ok cfg st"
  shows "\<exists>rows. extends st st' rows
                  (shock_paths cfg (fst fl) (filter (\<lambda>e. shock_files_exist cfg files (fst e)) [entry]))
                  (map (\<lambda>e. skip_message (fst e)) (filter (\<lambda>e. \<not> shock_files_exist cfg files (fst e)) [entry]))
          \<and> map erase_handles rows
               = concat (map (plain_rows cfg fl) (filter (\<lambda>e. shock_files_exist cfg files (fst e)) [entry]))
          \<and> block_ok fl bl st st' rows \<and> tails_ok cfg st'"
proof (cases "shock_files_exist cfg files (fst entry)")
  case False
  with assms have "st' = st\<lparr>st_stdout := st_stdout st @ [skip_message (fst entry)]\<rparr>"
    by (simp add: shock_step_skip)
  with False assms(2) have "extends st st' [] [] [skip_message (fst entry)]" "tails_ok cfg st'"
    by (simp_all add: extends_def tails_ok_def)
  with False show ?thesis by (auto simp: shock_paths_def block_ok_def)
next
  case True
  obtain name label info where entry: "entry = (name, label, info)" by (cases entry) auto
  from assms(1) True obtain st1 where
    ov: "override_first info st = Inr st1" and
    st': "variation_loop files fl bl (name, label) (variations cfg) st1 = Inr st'"
    by (auto simp: shock_step_def entry split: sum.splits)
  note O = override_first_Inr [OF ov assms(2)]
  from variation_loop_extends [OF st']
  obtain rows where
    ext: "extends st1 st' rows (map (\<lambda>var. gdx_path (fst fl) name (fst var)) (variations cfg)) []"
    and er: "map erase_handles rows
        = concat (map (\<lambda>var. map (plain_row fl (name, label) var)
            (enumerate 0 (shock_variables cfg info))) (variations cfg))"
    and fields: "\<forall>r \<in> set rows. folder r = fst fl \<and> shock_name r = name \<and> baseline r = bl
           \<and> length (st_opened st1) \<le> database r
           \<and> database r < length (st_opened st1) + length (variations cfg)
           \<and> (st_opened st1 @ map (\<lambda>var. gdx_path (fst fl) name (fst var)) (variations cfg)) ! database r
               = gdx_path (folder r) (shock_name r) (variation r)"
    using O by auto
  have 1: "extends st st' rows (shock_paths cfg (fst fl) [entry]) []"
    using ext O by (simp add: extends_def shock_paths_def entry)
  have 2: "map erase_handles rows = plain_rows cfg fl entry"
    using er by (simp add: plain_rows_def entry)
  have 3: "block_ok fl bl st st' rows"
    using fields ext O by (auto simp: block_ok_def extends_def)
  have 4: "tails_ok cfg st'"
    using O variation_loop_lists [OF st']
    by (simp add: tails_ok_def)
  from 1 2 3 4 True show ?thesis by auto
qed


lemma extends_trans:
  "extends st st1 r1 p1 l1 \<Longrightarrow> extends st1 st2 r2 p2 l2 \<Longrightarrow> extends st st2 (r1 @ r2) (p1 @ p2) (l1 @ l2)"
  by (simp add: extends_def)

lemma shock_paths_append: "shock_paths cfg f (xs @ ys) = shock_paths cfg f xs @ shock_paths cfg f ys"
  by (simp add: shock_paths_def)

lemma block_ok_append:
  assumes "block_ok fl bl st st1 rows1" and "block_ok fl bl st1 st2 rows2"
    and "extends st st1 r1 p1 l1" and "extends st1 st2 r2 p2 l2"
  shows "block_ok fl bl st st2 (rows1 @ rows2)"
proof -
  have o1: "st_opened st1 = st_opened st @ p1" and o2: "st_opened st2 = st_opened st1 @ p2"
    using assms(3,4) by (simp_all add: extends_def)
  have a: "folder r = fst fl \<and> baseline r = bl
        \<and> length (st_opened st) \<le> database r
        \<and> database r < length (st_opened st2)
        \<and> st_opened st2 ! database r = gdx_path (folder r) (shock_name r) (variation r)"
    if "r \<in> set rows1" for r
  proof -
    from assms(1) that have f: "folder r = fst fl \<and> baseline r = bl"
      and lo: "length (st_opened st) \<le> database r"
      and d: "database r < length (st_opened st1)"
      and p: "st_opened st1 ! database r = gdx_path (folder r) (shock_name r) (variation r)"
      unfolding block_ok_def by blast+
    have "st_opened st2 ! database r = st_opened st1 ! database r"
      unfolding o2 using d by (simp add: nth_append)
    moreover have "database r < length (st_opened st2)" unfolding o2 using d by simp
    ultimately show ?thesis using f lo p by simp
  qed
  have b: "folder r = fst fl \<and> baseline r = bl
        \<and> length (st_opened st) \<le> database r
        \<and> database r < length (st_opened st2)
        \<and> st_opened st2 ! database r = gdx_path (folder r) (shock_name r) (variation r)"
    if "r \<in> set rows2" for r
  proof -
    from assms(2) that have f: "folder r = fst fl \<and> baseline r = bl"
      and lo: "length (st_opened st1) \<le> database r"
      and d: "database r < length (st_opened st2)"
      and p: "st_opened st2 ! database r = gdx_path (folder r) (shock_name r) (variation r)"
      unfolding block_ok_def by blast+
    have "length (st_opened st) \<le> database r" using lo unfolding o1 by simp
    then show ?thesis using f d p by simp
  qed
  show ?thesis unfolding block_ok_def
  proof
    fix r assume "r \<in> set (rows1 @ rows2)"
    then have "r \<in> set rows1 \<or> r \<in> set rows2" by simp
    then show "folder r = fst fl \<and> baseline r = bl
        \<and> length (st_opened st) \<le> database r
        \<and> database r < length (st_opened st2)
        \<and> st_opened st2 ! database r = gdx_path (folder r) (shock_name r) (variation r)"
      using a b by blast
  qed
qed

lemma shock_loop_summary:
  assumes "shock_loop cfg files fl bl entries st = Inr st'" and "tails_ok cfg st"
  shows "\<exists>rows. extends st st' rows
                  (shock_paths cfg (fst fl) (filter (\<lambda>e. shock_files_exist cfg files (fst e)) entries))
                  (map (\<lambda>e. skip_message (fst e)) (filter (\<lambda>e. \<not> shock_files_exist cfg files (fst e)) entries))
          \<and> map erase_handles rows
               = concat (map (plain_rows cfg fl) (filter (\<lambda>e. shock_files_exist cfg files (fst e)) entries))
          \<and> block_ok fl bl st st' rows \<and> tails_ok cfg st'"
  using assms
proof (induction entries arbitrary: st)
  case Nil
  then show ?case by (simp add: extends_def shock_paths_def block_ok_def)
next
  case (Cons entry entries)
  let ?S = "\<lambda>e. shock_files_exist cfg files (fst e)"
  from Cons.prems(1) obtain st1 where
    s1: "shock_step cfg files fl bl entry st = Inr st1" and
    s2: "shock_loop cfg files fl bl entries st1 = Inr st'"
    by (auto split: sum.splits)
  from shock_step_summary [OF s1 Cons.prems(2)] obtain rows1 where
    e1: "extends st st1 rows1 (shock_paths cfg (fst fl) (filter ?S [entry]))
           (map (\<lambda>e. skip_message (fst e)) (filter (\<lambda>e. \<not> ?S e) [entry]))" and
    r1: "map erase_handles rows1 = concat (map (plain_rows cfg fl) (filter ?S [entry]))" and
    b1: "block_ok fl bl st st1 rows1" and t1: "tails_ok cfg st1"
    by blast
  from Cons.IH [OF s2 t1] obtain rows2 where
    e2: "extends st1 st' rows2 (shock_paths cfg (fst fl) (filter ?S entries))
           (map (\<lambda>e. skip_message (fst e)) (filter (\<lambda>e. \<not> ?S e) entries))" and
    r2: "map erase_handles rows2 = concat (map (plain_rows cfg fl) (filter ?S entries))" and
    b2: "block_ok fl bl st1 st' rows2" and t2: "tails_ok cfg st'"
    by blast
  have split: "filter P (entry # entries) = filter P [entry] @ filter P entries" for P
    by simp
  have "extends st st' (rows1 @ rows2)
          (shock_paths cfg (fst fl) (filter ?S (entry # entries)))
          (map (\<lambda>e. skip_message (fst e)) (filter (\<lambda>e. \<not> ?S e) (entry # entries)))"
    unfolding split shock_paths_append map_append by (rule extends_trans [OF e1 e2])
  moreover have "map erase_handles (rows1 @ rows2)
      = concat (map (plain_rows cfg fl) (filter ?S (entry # entries)))"
    unfolding split using r1 r2 by simp
  moreover have "block_ok fl bl st st' (rows1 @ rows2)"
    by (rule block_ok_append [OF b1 b2 e1 e2])
  ultimately show ?case using t2 by blast
qed

lemma folder_loop_summary:
  assumes "folder_loop cfg files fls st = Inr st'" and "tails_ok cfg st"
  shows "\<exists>rows. extends st st' rows
                  (concat (map (\<lambda>fl. baseline_path (fst fl) # shock_paths cfg (fst fl) (surviving cfg files)) fls))
                  (concat (map (\<lambda>fl. map (\<lambda>e. skip_message (fst e))
                      (filter (\<lambda>e. \<not> shock_files_exist cfg files (fst e)) (shock_entries cfg))) fls))
          \<and> map erase_handles rows
               = concat (map (\<lambda>fl. concat (map (plain_rows cfg fl) (surviving cfg files))) fls)
          \<and> folder_rows_ok st st' fls rows"
  using assms
proof (induction fls arbitrary: st)
  case Nil
  then show ?case by (simp add: extends_def folder_rows_ok_def)
next
  case (Cons fl fls)
  let ?bl = "length (st_opened st)"
  let ?st1 = "st\<lparr>st_opened := st_opened st @ [baseline_path (fst fl)]\<rparr>"
  from Cons.prems(1) obtain st2 where
    s1: "shock_loop cfg files fl ?bl (shock_entries cfg) ?st1 = Inr st2" and
    s2: "folder_loop cfg files fls st2 = Inr st'"
    by (auto simp: Gdx_def split: sum.splits if_splits)
  have t1: "tails_ok cfg ?st1" using Cons.prems(2) by (simp add: tails_ok_def)
  from shock_loop_summary [OF s1 t1] obtain rows1 where
    e1: "extends ?st1 st2 rows1 (shock_paths cfg (fst fl) (surviving cfg files))
           (map (\<lambda>e. skip_message (fst e))
              (filter (\<lambda>e. \<not> shock_files_exist cfg files (fst e)) (shock_entries cfg)))" and
    r1: "map erase_handles rows1 = concat (map (plain_rows cfg fl) (surviving cfg files))" and
    b1: "block_ok fl ?bl ?st1 st2 rows1" and t2: "tails_ok cfg st2"
    unfolding surviving_def by blast
  from Cons.IH [OF s2 t2] obtain rows2 where
    e2: "extends st2 st' rows2
           (concat (map (\<lambda>fl. baseline_path (fst fl) # shock_paths cfg (fst fl) (surviving cfg files)) fls))
           (concat (map (\<lambda>fl. map (\<lambda>e. skip_message (fst e))
                      (filter (\<lambda>e. \<not> shock_files_exist cfg files (fst e)) (shock_entries cfg))) fls))" and
    r2: "map erase_handles rows2
           = concat (map (\<lambda>fl. concat (map (plain_rows cfg fl) (surviving cfg files))) fls)" and
    f2: "folder_rows_ok st2 st' fls rows2"
    by blast
  have e0: "extends st ?st1 [] [baseline_path (fst fl)] []" by (simp add: extends_def)
  have "extends st st' ([] @ rows1 @ rows2)
          ([baseline_path (fst fl)] @ shock_paths cfg (fst fl) (surviving cfg files)
             @ concat (map (\<lambda>fl. baseline_path (fst fl) # shock_paths cfg (fst fl) (surviving cfg files)) fls))
          ([] @ map (\<lambda>e. skip_message (fst e))
              (filter (\<lambda>e. \<not> shock_files_exist cfg files (fst e)) (shock_entries cfg))
             @ concat (map (\<lambda>fl. map (\<lambda>e. skip_message (fst e))
                      (filter (\<lambda>e. \<not> shock_files_exist cfg files (fst e)) (shock_entries cfg))) fls))"
    by (rule extends_trans [OF e0 extends_trans [OF e1 e2]])
  then have 1: "extends st st' (rows1 @ rows2)
          (concat (map (\<lambda>fl. baseline_path (fst fl) # shock_paths cfg (fst fl) (surviving cfg files)) (fl # fls)))
          (concat (map (\<lambda>fl. map (\<lambda>e. skip_message (fst e))
                      (filter (\<lambda>e. \<not> shock_files_exist cfg files (fst e)) (shock_entries cfg))) (fl # fls)))"
    by simp
  have 2: "map erase_handles (rows1 @ rows2)
      = concat (map (\<lambda>fl. concat (map (plain_rows cfg fl) (surviving cfg files))) (fl # fls))"
    using r1 r2 by simp
  have o1: "st_opened st2 = st_opened st @ baseline_path (fst fl) # shock_paths cfg (fst fl) (surviving cfg files)"
    using e1 by (simp add: extends_def)
  obtain ps where o2: "st_opened st' = st_opened st2 @ ps" using e2 by (auto simp: extends_def)
  have old: "folder r = fst fl \<and> baseline r = ?bl \<and> ?bl \<le> baseline r \<and> baseline r < length (st_opened st')
        \<and> st_opened st' ! baseline r = baseline_path (folder r)
        \<and> database r < length (st_opened st')
        \<and> st_opened st' ! database r = gdx_path (folder r) (shock_name r) (variation r)"
    if "r \<in> set rows1" for r
  proof -
    from b1 that have f: "folder r = fst fl" and b: "baseline r = ?bl"
      and d: "database r < length (st_opened st2)"
      and p: "st_opened st2 ! database r = gdx_path (folder r) (shock_name r) (variation r)"
      unfolding block_ok_def by blast+
    have "st_opened st' ! ?bl = baseline_path (fst fl)"
      by (simp add: o2 o1 nth_append)
    moreover have "st_opened st' ! database r = st_opened st2 ! database r"
      using d by (simp add: o2 nth_append)
    ultimately show ?thesis using f b d p by (simp add: o2 o1)
  qed
  have new: "folder r \<in> fst ` set fls \<and> ?bl \<le> baseline r \<and> Suc ?bl \<le> baseline r
        \<and> baseline r < length (st_opened st')
        \<and> st_opened st' ! baseline r = baseline_path (folder r)
        \<and> database r < length (st_opened st')
        \<and> st_opened st' ! database r = gdx_path (folder r) (shock_name r) (variation r)"
    if "r \<in> set rows2" for r
  proof -
    from f2 that have "folder r \<in> fst ` set fls
        \<and> length (st_opened st2) \<le> baseline r
        \<and> baseline r < length (st_opened st')
        \<and> st_opened st' ! baseline r = baseline_path (folder r)
        \<and> database r < length (st_opened st')
        \<and> st_opened st' ! database r = gdx_path (folder r) (shock_name r) (variation r)"
      unfolding folder_rows_ok_def by blast
    moreover have "Suc ?bl \<le> length (st_opened st2)" unfolding o1 by simp
    ultimately show ?thesis by simp
  qed
  have all: "\<forall>r \<in> set (rows1 @ rows2). folder r \<in> fst ` set (fl # fls)
        \<and> ?bl \<le> baseline r
        \<and> baseline r < length (st_opened st')
        \<and> st_opened st' ! baseline r = baseline_path (folder r)
        \<and> database r < length (st_opened st')
        \<and> st_opened st' ! database r = gdx_path (folder r) (shock_name r) (variation r)"
  proof
    fix r assume "r \<in> set (rows1 @ rows2)"
    then have "r \<in> set rows1 \<or> r \<in> set rows2" by simp
    then show "folder r \<in> fst ` set (fl # fls)
        \<and> ?bl \<le> baseline r
        \<and> baseline r < length (st_opened st')
        \<and> st_opened st' ! baseline r = baseline_path (folder r)
        \<and> database r < length (st_opened st')
        \<and> st_opened st' ! database r = gdx_path (folder r) (shock_name r) (variation r)"
    proof
      assume r: "r \<in> set rows1"
      from old [OF r] have "folder r \<in> fst ` set (fl # fls)" by simp
      with old [OF r] show ?thesis by blast
    next
      assume r: "r \<in> set rows2"
      from new [OF r] have "folder r \<in> fst ` set (fl # fls)" by simp
      with new [OF r] show ?thesis by blast
    qed
  qed
  have share: "distinct (map fst (fl # fls)) \<longrightarrow>
        (\<forall>r1 \<in> set (rows1 @ rows2). \<forall>r2 \<in> set (rows1 @ rows2).
            folder r1 = folder r2 \<longrightarrow> baseline r1 = baseline r2)"
  proof (intro impI ballI)
    fix r1 r2
    assume d: "distinct (map fst (fl # fls))"
      and m1: "r1 \<in> set (rows1 @ rows2)" and m2: "r2 \<in> set (rows1 @ rows2)"
      and eq: "folder r1 = folder r2"
    from d have nf: "fst fl \<notin> fst ` set fls" and d2: "distinct (map fst fls)" by auto
    from f2 d2 have sh: "\<forall>a \<in> set rows2. \<forall>b \<in> set rows2. folder a = folder b \<longrightarrow> baseline a = baseline b"
      unfolding folder_rows_ok_def by blast
    from m1 have c1: "r1 \<in> set rows1 \<or> r1 \<in> set rows2" by simp
    from m2 have c2: "r2 \<in> set rows1 \<or> r2 \<in> set rows2" by simp
    show "baseline r1 = baseline r2"
    proof (cases "r1 \<in> set rows1")
      case a: True
      show ?thesis
      proof (cases "r2 \<in> set rows1")
        case True
        from old [OF a] old [OF True] show ?thesis by simp
      next
        case False
        with c2 have "r2 \<in> set rows2" by simp
        from old [OF a] new [OF this] eq nf show ?thesis by auto
      qed
    next
      case a: False
      with c1 have a2: "r1 \<in> set rows2" by simp
      show ?thesis
      proof (cases "r2 \<in> set rows1")
        case True
        from old [OF True] new [OF a2] eq nf show ?thesis by auto
      next
        case False
        with c2 have "r2 \<in> set rows2" by simp
        with sh a2 eq show ?thesis by blast
      qed
    qed
  qed
  have 3: "folder_rows_ok st st' (fl # fls) (rows1 @ rows2)"
    unfolding folder_rows_ok_def using all share by (rule conjI)
  from 1 2 3 show ?case by blast
qed


lemma tails_ok_initial: "tails_ok cfg (initial_state cfg)"
  by (simp add: tails_ok_def initial_state_def)

lemma build_data_summary:
  assumes "build_data cfg files = Inr st"
  shows "map erase_handles (st_data st) = plain_table cfg files"
    and "st_opened st = concat (map (\<lambda>fl. baseline_path (fst fl) # shock_paths cfg (fst fl) (surviving cfg files))
                                   (gdx_folders_info cfg))"
    and "st_stdout st = concat (map (\<lambda>fl. map (\<lambda>e. skip_message (fst e))
            (filter (\<lambda>e. \<not> shock_files_exist cfg files (fst e)) (shock_entries cfg))) (gdx_folders_info cfg))"
    and "folder_rows_ok (initial_state cfg) st (gdx_folders_info cfg) (st_data st)"
proof -
  from assms have "folder_loop cfg files (gdx_folders_info cfg) (initial_state cfg) = Inr st"
    by (simp add: build_data_def)
  from folder_loop_summary [OF this tails_ok_initial] obtain rows where
    e: "extends (initial_state cfg) st rows
          (concat (map (\<lambda>fl. baseline_path (fst fl) # shock_paths cfg (fst fl) (surviving cfg files))
                                   (gdx_folders_info cfg)))
          (concat (map (\<lambda>fl. map (\<lambda>e. skip_message (fst e))
            (filter (\<lambda>e. \<not> shock_files_exist cfg files (fst e)) (shock_entries cfg))) (gdx_folders_info cfg)))"
    and r: "map erase_handles rows
             = concat (map (\<lambda>fl. concat (map (plain_rows cfg fl) (surviving cfg files))) (gdx_folders_info cfg))"
    and f: "folder_rows_ok (initial_state cfg) st (gdx_folders_info cfg) rows"
    by blast
  from e have d: "st_data st = rows" by (simp add: extends_def initial_state_def)
  show "map erase_handles (st_data st) = plain_table cfg files"
    unfolding d plain_table_def by (rule r)
  show "st_opened st = concat (map (\<lambda>fl. baseline_path (fst fl) # shock_paths cfg (fst fl) (surviving cfg files))
                                   (gdx_folders_info cfg))"
    using e by (simp add: extends_def initial_state_def)
  show "st_stdout st = concat (map (\<lambda>fl. map (\<lambda>e. skip_message (fst e))
            (filter (\<lambda>e. \<not> shock_files_exist cfg files (fst e)) (shock_entries cfg))) (gdx_folders_info cfg))"
    using e by (simp add: extends_def initial_state_def)
  show "folder_rows_ok (initial_state cfg) st (gdx_folders_info cfg) (st_data st)"
    unfolding d by (rule f)
qed

lemma plain_table_member:
  assumes "p \<in> set (plain_table cfg files)"
  shows "\<exists>fl \<in> set (gdx_folders_info cfg). \<exists>entry \<in> set (surviving cfg files).
         \<exists>var \<in> set (variations cfg). \<exists>i < length (shock_variables cfg (snd (snd entry))).
           p = plain_row fl (fst entry, fst (snd entry)) var (i, shock_variables cfg (snd (snd entry)) ! i)"
proof -
  from assms obtain fl entry var x where
    fl: "fl \<in> set (gdx_folders_info cfg)" and en: "entry \<in> set (surviving cfg files)"
    and var: "var \<in> set (variations cfg)"
    and x: "x \<in> set (enumerate 0 (shock_variables cfg (snd (snd entry))))"
    and p: "p = plain_row fl (fst entry, fst (snd entry)) var x"
    unfolding plain_table_def plain_rows_def by auto
  obtain i y where xy: "x = (i, y)" by (cases x)
  from x have "i < length (shock_variables cfg (snd (snd entry)))"
    and "y = shock_variables cfg (snd (snd entry)) ! i"
    unfolding xy by (simp_all add: in_set_enumerate_eq)
  with fl en var p xy show ?thesis by blast
qed

lemma row_erase_fields:
  "erase_handles r = plain_row fl sh var (i, vl, g, opr) \<Longrightarrow>
     variable_index r = i \<and> folder r = fst fl \<and> folder_label r = snd fl
   \<and> shock_name r = fst sh \<and> shock_label r = snd sh
   \<and> variation r = fst var \<and> variation_label r = snd var
   \<and> getter r = g \<and> variable_label r = vl \<and> operator r = opr"
  by (cases r) (simp add: erase_handles_def plain_row_def)

lemma shock_variables_nth:
  assumes "i < length (shock_variables cfg (lDK, lEN, g, opr))"
  shows "(i = 0 \<longrightarrow> shock_variables cfg (lDK, lEN, g, opr) ! i = (if DA then lDK else lEN, g, opr))
       \<and> (1 \<le> i \<longrightarrow> i < length (variable_labels cfg) \<and> i < length (get_variable_functions cfg)
             \<and> i < length (operators cfg)
             \<and> shock_variables cfg (lDK, lEN, g, opr) ! i
                 = (variable_labels cfg ! i, get_variable_functions cfg ! i, operators cfg ! i))"
proof (cases i)
  case 0
  then show ?thesis by (simp add: shock_variables_def)
next
  case (Suc j)
  from assms have "j < length (tl (variable_labels cfg))" "j < length (tl (get_variable_functions cfg))"
    "j < length (tl (operators cfg))"
    by (simp_all add: shock_variables_def Suc)
  then show ?thesis
    by (cases "variable_labels cfg"; cases "get_variable_functions cfg"; cases "operators cfg")
       (simp_all add: shock_variables_def Suc)
qed

lemma row_origin:
  assumes "build_data cfg files = Inr st" and "r \<in> set (st_data st)"
  shows "\<exists>fl \<in> set (gdx_folders_info cfg). \<exists>entry \<in> set (surviving cfg files).
         \<exists>var \<in> set (variations cfg). \<exists>i < length (shock_variables cfg (snd (snd entry))).
           erase_handles r = plain_row fl (fst entry, fst (snd entry)) var
                               (i, shock_variables cfg (snd (snd entry)) ! i)"
proof -
  from assms(2) have "erase_handles r \<in> set (map erase_handles (st_data st))" by simp
  then have "erase_handles r \<in> set (plain_table cfg files)"
    by (simp only: build_data_summary(1) [OF assms(1)])
  then show ?thesis by (rule plain_table_member)
qed

text \<open>
  Claim C6. Every row of the table belongs to a configured shock whose files exist, whose
  name and label it carries. If its variable index is 0 it carries that shock's own
  (label, getter, operator); if its variable index is at least 1 it carries the configured
  label, getter and operator of that index, whatever shocks were processed before.
\<close>

theorem override_only_first:
  assumes "build_data cfg files = Inr st" and "r \<in> set (st_data st)"
  shows "\<exists>(name, label, label_DK, label_EN, g, opr) \<in> set (shock_entries cfg).
            shock_files_exist cfg files name \<and> shock_name r = name \<and> shock_label r = label
          \<and> (variable_index r = 0 \<longrightarrow>
                 variable_label r = (if DA then label_DK else label_EN)
               \<and> getter r = g \<and> operator r = opr)
          \<and> (1 \<le> variable_index r \<longrightarrow>
                 variable_index r < length (variable_labels cfg)
               \<and> variable_index r < length (get_variable_functions cfg)
               \<and> variable_index r < length (operators cfg)
               \<and> variable_label r = variable_labels cfg ! variable_index r
               \<and> getter r = get_variable_functions cfg ! variable_index r
               \<and> operator r = operators cfg ! variable_index r)"
proof -
  from row_origin [OF assms] obtain fl entry var i where
    en: "entry \<in> set (surviving cfg files)"
    and i: "i < length (shock_variables cfg (snd (snd entry)))"
    and r: "erase_handles r = plain_row fl (fst entry, fst (snd entry)) var
                               (i, shock_variables cfg (snd (snd entry)) ! i)"
    by blast
  obtain name label lDK lEN g opr where entry: "entry = (name, label, lDK, lEN, g, opr)"
    by (cases entry) auto
  obtain vl g' opr' where x: "shock_variables cfg (lDK, lEN, g, opr) ! i = (vl, g', opr')"
    by (cases "shock_variables cfg (lDK, lEN, g, opr) ! i") auto
  from r have f: "variable_index r = i" "shock_name r = name" "shock_label r = label"
    "getter r = g'" "variable_label r = vl" "operator r = opr'"
    using row_erase_fields [of r fl "(name, label)" var i vl g' opr'] by (simp_all add: entry x)
  from en have m: "(name, label, lDK, lEN, g, opr) \<in> set (shock_entries cfg)"
    and s: "shock_files_exist cfg files name"
    by (simp_all add: surviving_def entry)
  from i have i': "i < length (shock_variables cfg (lDK, lEN, g, opr))" by (simp add: entry)
  have n: "(i = 0 \<longrightarrow> (vl, g', opr') = (if DA then lDK else lEN, g, opr))
       \<and> (1 \<le> i \<longrightarrow> i < length (variable_labels cfg) \<and> i < length (get_variable_functions cfg)
             \<and> i < length (operators cfg)
             \<and> (vl, g', opr') = (variable_labels cfg ! i, get_variable_functions cfg ! i, operators cfg ! i))"
    by (rule shock_variables_nth [OF i', unfolded x])
  show ?thesis
    by (rule bexI [OF _ m]) (use s f n in simp)
qed


lemma example_fields:
  "gdx_folders_info example_config = [(''Gdx'', ''''), (''Old'', ''old'')]"
  "variations_info example_config = [(''_blip'', ''Blip'', ''Blip'')]"
  "shock_names example_config = [''a'', ''b'']"
  "shock_labels_DA example_config = [''A'', ''B'']"
  "shock_specific_plot_info example_config = [(''la'', ''la'', 10, ''pq''), (''lb'', ''lb'', 20, ''pm'')]"
  "variable_labels_DK example_config = [''v0'', ''v1'']"
  "get_variable_functions example_config = [0, 1]"
  "operators example_config = [''pq'', ''pm'']"
  by (simp_all add: example_config_def)

lemma example_exists:
  "shock_files_exist example_config example_files ''a''"
  "\<not> shock_files_exist example_config example_files ''b''"
  by (simp_all add: shock_files_exist_def example_fields example_files_def
        shock_variation_suffixes_def gdx_path_def baseline_path_def)

lemma example_opens:
  "baseline_path ''Gdx'' \<in> example_files" "baseline_path ''Old'' \<in> example_files"
  "gdx_path ''Gdx'' ''a'' ''_blip'' \<in> example_files"
  "gdx_path ''Old'' ''a'' ''_blip'' \<in> example_files"
  by (simp_all add: example_files_def)

lemma example_build: "build_data example_config example_files = Inr example_state"
  unfolding build_data_def
  by (simp add: example_exists example_opens example_fields shock_step_def shock_entries_def
        shock_labels_def DA_def
        initial_state_def variable_labels_def Gdx_def override_first_def set_first_def
        variations_def shock_variation_suffixes_def shock_variation_labels_def
        variable_rows_def example_state_def example_row_def)


lemma baseline_path_inj: "baseline_path f1 = baseline_path f2 \<Longrightarrow> f1 = f2"
  by (simp add: baseline_path_def)

text \<open>
  Claim C1. In every table the loop builds, the baseline reference of a row is the database
  opened from \<^verbatim>\<open>baseline.gdx\<close> of the row's own folder, and its database reference is the
  one opened from that same folder's shock file. The sequence of all \<^verbatim>\<open>dt.Gdx\<close> calls is,
  folder by folder, one baseline followed by the shock files of that folder, so each
  configured folder has its baseline opened once. Rows of one folder share the baseline
  object (the configured folders being distinct), and rows that share a baseline object
  are rows of one folder.
\<close>

theorem baseline_same_folder:
  assumes "build_data cfg files = Inr st"
  shows "(\<forall>r \<in> set (st_data st).
            baseline r < length (st_opened st)
          \<and> st_opened st ! baseline r = baseline_path (folder r)
          \<and> database r < length (st_opened st)
          \<and> st_opened st ! database r = gdx_path (folder r) (shock_name r) (variation r))
       \<and> st_opened st
            = concat (map (\<lambda>fl. baseline_path (fst fl) # shock_paths cfg (fst fl) (surviving cfg files))
                          (gdx_folders_info cfg))
       \<and> (distinct (map fst (gdx_folders_info cfg)) \<longrightarrow>
            (\<forall>r1 \<in> set (st_data st). \<forall>r2 \<in> set (st_data st).
               folder r1 = folder r2 \<longrightarrow> baseline r1 = baseline r2))
       \<and> (\<forall>r1 \<in> set (st_data st). \<forall>r2 \<in> set (st_data st).
               baseline r1 = baseline r2 \<longrightarrow> folder r1 = folder r2)"
proof -
  note S = build_data_summary [OF assms]
  from S(4) have paths: "\<forall>r \<in> set (st_data st).
            baseline r < length (st_opened st)
          \<and> st_opened st ! baseline r = baseline_path (folder r)
          \<and> database r < length (st_opened st)
          \<and> st_opened st ! database r = gdx_path (folder r) (shock_name r) (variation r)"
    unfolding folder_rows_ok_def by blast
  from S(4) have share: "distinct (map fst (gdx_folders_info cfg)) \<longrightarrow>
            (\<forall>r1 \<in> set (st_data st). \<forall>r2 \<in> set (st_data st).
               folder r1 = folder r2 \<longrightarrow> baseline r1 = baseline r2)"
    unfolding folder_rows_ok_def by blast
  have apart: "\<forall>r1 \<in> set (st_data st). \<forall>r2 \<in> set (st_data st).
               baseline r1 = baseline r2 \<longrightarrow> folder r1 = folder r2"
  proof (intro ballI impI)
    fix r1 r2 assume m: "r1 \<in> set (st_data st)" "r2 \<in> set (st_data st)"
      and e: "baseline r1 = baseline r2"
    from paths m have "st_opened st ! baseline r1 = baseline_path (folder r1)"
      "st_opened st ! baseline r2 = baseline_path (folder r2)" by blast+
    with e have "baseline_path (folder r1) = baseline_path (folder r2)" by simp
    then show "folder r1 = folder r2" by (rule baseline_path_inj)
  qed
  from paths S(2) share apart show ?thesis by (intro conjI)
qed

lemma shock_files_exist_all:
  "shock_files_exist cfg files shock \<longleftrightarrow>
     (\<forall>fl \<in> set (gdx_folders_info cfg). \<forall>suffix \<in> set (shock_variation_suffixes cfg).
        gdx_path (fst fl) shock suffix \<in> files)"
  by (auto simp: shock_files_exist_def list_all_iff split_def)

text \<open>
  Claim C3. \<open>shock_files_exist\<close> is true exactly when the file \<^verbatim>\<open>{folder}\{shock}{suffix}.gdx\<close>
  exists for every configured folder and every configured suffix; it is a total function
  to \<open>bool\<close>, so it raises nothing. For a shock that fails the test, the loop body returns
  normally with the state unchanged except for one printed line.
\<close>

theorem shock_files_exist_iff:
  "(shock_files_exist cfg files shock \<longleftrightarrow>
     (\<forall>fl \<in> set (gdx_folders_info cfg). \<forall>suffix \<in> set (shock_variation_suffixes cfg).
        gdx_path (fst fl) shock suffix \<in> files))
   \<and> (\<not> shock_files_exist cfg files name \<longrightarrow>
        shock_step cfg files fl bl (name, label, info) st
          = Inr (st\<lparr>st_stdout := st_stdout st @ [skip_message name]\<rparr>))"
  using shock_files_exist_all [of cfg files shock]
    shock_step_skip [of cfg files "(name, label, info)" fl bl st]
  by simp

theorem baseline_same_folder_witness:
  "build_data example_config example_files = Inr example_state
   \<and> distinct (map fst (gdx_folders_info example_config))
   \<and> example_row 0 (''Old'', ''old'') 3 2 (''la'', 10, ''pq'') \<in> set (st_data example_state)
   \<and> example_row 1 (''Old'', ''old'') 3 2 (''v1'', 1, ''pm'') \<in> set (st_data example_state)
   \<and> st_opened example_state
        = [baseline_path ''Gdx'', gdx_path ''Gdx'' ''a'' ''_blip'',
           baseline_path ''Old'', gdx_path ''Old'' ''a'' ''_blip'']
   \<and> st_opened example_state ! baseline (example_row 0 (''Old'', ''old'') 3 2 (''la'', 10, ''pq''))
        = baseline_path (folder (example_row 0 (''Old'', ''old'') 3 2 (''la'', 10, ''pq'')))
   \<and> st_opened example_state ! database (example_row 0 (''Old'', ''old'') 3 2 (''la'', 10, ''pq''))
        = gdx_path ''Old'' ''a'' ''_blip''
   \<and> baseline (example_row 0 (''Old'', ''old'') 3 2 (''la'', 10, ''pq''))
        = baseline (example_row 1 (''Old'', ''old'') 3 2 (''v1'', 1, ''pm''))"
proof -
  let ?r0 = "example_row 0 (''Old'', ''old'') 3 2 (''la'', 10, ''pq'')"
  let ?r1 = "example_row 1 (''Old'', ''old'') 3 2 (''v1'', 1, ''pm'')"
  have d: "distinct (map fst (gdx_folders_info example_config))"
    by (simp add: example_fields)
  have m0: "?r0 \<in> set (st_data example_state)" and m1: "?r1 \<in> set (st_data example_state)"
    by (simp_all add: example_state_def)
  have f: "folder ?r0 = folder ?r1" "folder ?r0 = ''Old''" "shock_name ?r0 = ''a''"
    "variation ?r0 = ''_blip''"
    by (simp_all add: example_row_def)
  note T = baseline_same_folder [OF example_build]
  from T have o: "st_opened example_state
        = concat (map (\<lambda>fl. baseline_path (fst fl)
                     # shock_paths example_config (fst fl) (surviving example_config example_files))
                  (gdx_folders_info example_config))"
    by blast
  have o': "st_opened example_state
        = [baseline_path ''Gdx'', gdx_path ''Gdx'' ''a'' ''_blip'',
           baseline_path ''Old'', gdx_path ''Old'' ''a'' ''_blip'']"
    unfolding o
    by (simp add: example_fields shock_paths_def surviving_def shock_entries_def shock_labels_def
          DA_def example_exists variations_def shock_variation_suffixes_def
          shock_variation_labels_def)
  from T m0 have p: "st_opened example_state ! baseline ?r0 = baseline_path (folder ?r0)"
    "st_opened example_state ! database ?r0 = gdx_path (folder ?r0) (shock_name ?r0) (variation ?r0)"
    by blast+
  from T d m0 m1 f(1) have s: "baseline ?r0 = baseline ?r1" by blast
  from example_build d m0 m1 o' p s show ?thesis unfolding f(2,3,4) by (intro conjI)
qed

theorem shock_files_exist_iff_witness:
  "shock_files_exist example_config example_files ''a''
   \<and> gdx_path ''Old'' ''a'' ''_blip'' \<in> example_files
   \<and> \<not> shock_files_exist example_config example_files ''b''
   \<and> shock_step example_config example_files (''Old'', ''old'') 2
         (''b'', ''B'', ''lb'', ''lb'', 20, ''pm'') (initial_state example_config)
       = Inr ((initial_state example_config)
               \<lparr>st_stdout := st_stdout (initial_state example_config) @ [skip_message ''b'']\<rparr>)"
proof -
  note T = shock_files_exist_iff [of example_config example_files "''a''" "''b''"
          "(''Old'', ''old'')" 2 "''B''" "(''lb'', ''lb'', 20, ''pm'')" "initial_state example_config"]
  have fl: "(''Old'', ''old'') \<in> set (gdx_folders_info example_config)"
    and sx: "''_blip'' \<in> set (shock_variation_suffixes example_config)"
    by (simp_all add: example_fields shock_variation_suffixes_def)
  from T example_exists(1) fl sx
  have "gdx_path (fst (''Old'', ''old'')) ''a'' ''_blip'' \<in> example_files" by blast
  then have "gdx_path ''Old'' ''a'' ''_blip'' \<in> example_files" by simp
  moreover from T example_exists(2)
  have "shock_step example_config example_files (''Old'', ''old'') 2
         (''b'', ''B'', ''lb'', ''lb'', 20, ''pm'') (initial_state example_config)
       = Inr ((initial_state example_config)
               \<lparr>st_stdout := st_stdout (initial_state example_config) @ [skip_message ''b'']\<rparr>)"
    by blast
  ultimately show ?thesis using example_exists by (intro conjI)
qed

theorem override_only_first_witness:
  "build_data example_config example_files = Inr example_state
   \<and> example_row 0 (''Old'', ''old'') 3 2 (''la'', 10, ''pq'') \<in> set (st_data example_state)
   \<and> example_row 1 (''Old'', ''old'') 3 2 (''v1'', 1, ''pm'') \<in> set (st_data example_state)
   \<and> variable_labels example_config ! 1 = ''v1''
   \<and> (\<exists>(name, label, label_DK, label_EN, g, opr) \<in> set (shock_entries example_config).
         shock_files_exist example_config example_files name
       \<and> shock_name (example_row 0 (''Old'', ''old'') 3 2 (''la'', 10, ''pq'')) = name
       \<and> variable_label (example_row 0 (''Old'', ''old'') 3 2 (''la'', 10, ''pq''))
            = (if DA then label_DK else label_EN)
       \<and> getter (example_row 0 (''Old'', ''old'') 3 2 (''la'', 10, ''pq'')) = g
       \<and> operator (example_row 0 (''Old'', ''old'') 3 2 (''la'', 10, ''pq'')) = opr)
   \<and> (\<exists>(name, label, label_DK, label_EN, g, opr) \<in> set (shock_entries example_config).
         shock_files_exist example_config example_files name
       \<and> shock_name (example_row 1 (''Old'', ''old'') 3 2 (''v1'', 1, ''pm'')) = name
       \<and> variable_label (example_row 1 (''Old'', ''old'') 3 2 (''v1'', 1, ''pm''))
            = variable_labels example_config ! 1
       \<and> getter (example_row 1 (''Old'', ''old'') 3 2 (''v1'', 1, ''pm''))
            = get_variable_functions example_config ! 1
       \<and> operator (example_row 1 (''Old'', ''old'') 3 2 (''v1'', 1, ''pm''))
            = operators example_config ! 1)"
proof -
  let ?r0 = "example_row 0 (''Old'', ''old'') 3 2 (''la'', 10, ''pq'')"
  let ?r1 = "example_row 1 (''Old'', ''old'') 3 2 (''v1'', 1, ''pm'')"
  have m0: "?r0 \<in> set (st_data example_state)" and m1: "?r1 \<in> set (st_data example_state)"
    by (simp_all add: example_state_def)
  have v: "variable_labels example_config ! 1 = ''v1''"
    by (simp add: variable_labels_def DA_def example_fields)
  have i0: "variable_index ?r0 = 0" and i1: "variable_index ?r1 = 1"
    by (simp_all add: example_row_def)
  from override_only_first [OF example_build m0]
  have a: "\<exists>(name, label, label_DK, label_EN, g, opr) \<in> set (shock_entries example_config).
         shock_files_exist example_config example_files name
       \<and> shock_name ?r0 = name
       \<and> variable_label ?r0 = (if DA then label_DK else label_EN)
       \<and> getter ?r0 = g \<and> operator ?r0 = opr"
    unfolding i0 by fastforce
  from override_only_first [OF example_build m1]
  have b: "\<exists>(name, label, label_DK, label_EN, g, opr) \<in> set (shock_entries example_config).
         shock_files_exist example_config example_files name
       \<and> shock_name ?r1 = name
       \<and> variable_label ?r1 = variable_labels example_config ! 1
       \<and> getter ?r1 = get_variable_functions example_config ! 1
       \<and> operator ?r1 = operators example_config ! 1"
    unfolding i1 by fastforce
  from example_build m0 m1 v a b show ?thesis by (intro conjI)
qed

lemma digit_char_inj: "a < 10 \<Longrightarrow> b < 10 \<Longrightarrow> digit_char a = digit_char b \<Longrightarrow> a = b"
proof -
  assume a: "a < 10" and b: "b < 10" and e: "digit_char a = digit_char b"
  from e have "(of_char (digit_char a) :: nat) = of_char (digit_char b)" by simp
  then have "(48 + a) mod 256 = (48 + b) mod 256" by (simp add: digit_char_def)
  with a b show "a = b" by simp
qed

lemma digit_char_not_space: "d < 10 \<Longrightarrow> digit_char d \<noteq> CHR '' ''"
proof
  assume d: "d < 10" and e: "digit_char d = CHR '' ''"
  from e have "(of_char (digit_char d) :: nat) = of_char (CHR '' '')" by simp
  then have "(48 + d) mod 256 = 32" by (simp add: digit_char_def)
  with d show False by simp
qed

lemma str_nat_not_empty: "str_nat n \<noteq> []"
  by (subst str_nat.simps) simp

lemma str_nat_no_space: "CHR '' '' \<notin> set (str_nat n)"
proof (induction n rule: str_nat.induct)
  case (1 n)
  show ?case
  proof (cases "n < 10")
    case True
    then show ?thesis using digit_char_not_space [of n] by (subst str_nat.simps) auto
  next
    case False
    have "n mod 10 < 10" by simp
    from digit_char_not_space [OF this] "1.IH" [OF False] False show ?thesis
      by (subst str_nat.simps) auto
  qed
qed

lemma str_nat_inj: "str_nat n = str_nat m \<Longrightarrow> n = m"
proof (induction n arbitrary: m rule: str_nat.induct)
  case (1 n)
  show ?case
  proof (cases "n < 10")
    case n: True
    show ?thesis
    proof (cases "m < 10")
      case True
      from "1.prems" n True have "digit_char n = digit_char m"
        by (simp add: str_nat.simps [of n] str_nat.simps [of m])
      then show ?thesis using n True by (rule digit_char_inj [rotated 2])
    next
      case False
      from "1.prems" n False have "[digit_char n] = str_nat (m div 10) @ [digit_char (m mod 10)]"
        by (simp add: str_nat.simps [of n] str_nat.simps [of m])
      then show ?thesis using str_nat_not_empty [of "m div 10"] by simp
    qed
  next
    case n: False
    show ?thesis
    proof (cases "m < 10")
      case True
      from "1.prems" n True have "str_nat (n div 10) @ [digit_char (n mod 10)] = [digit_char m]"
        by (simp add: str_nat.simps [of n] str_nat.simps [of m])
      then show ?thesis using str_nat_not_empty [of "n div 10"] by simp
    next
      case False
      from "1.prems" n False
      have e: "str_nat (n div 10) @ [digit_char (n mod 10)] = str_nat (m div 10) @ [digit_char (m mod 10)]"
        by (simp add: str_nat.simps [of n] str_nat.simps [of m])
      then have "str_nat (n div 10) = str_nat (m div 10)" and d: "digit_char (n mod 10) = digit_char (m mod 10)"
        by simp_all
      from "1.IH" [OF n this(1)] have q: "n div 10 = m div 10" .
      have "n mod 10 = m mod 10" by (rule digit_char_inj [OF _ _ d]) simp_all
      with q show ?thesis by (metis div_mult_mod_eq)
    qed
  qed
qed

lemma split_at_last:
  assumes "xs @ c # ys = xs' @ c # ys'" and "c \<notin> set ys" and "c \<notin> set ys'"
  shows "xs = xs' \<and> ys = ys'"
proof -
  have a: "takeWhile (\<lambda>x. x \<noteq> c) (rev (xs @ c # ys)) = rev ys"
    using assms(2) by (auto simp: takeWhile_tail)
  have b: "takeWhile (\<lambda>x. x \<noteq> c) (rev (xs' @ c # ys')) = rev ys'"
    using assms(3) by (auto simp: takeWhile_tail)
  from a b have "rev ys = rev ys'" by (simp only: assms(1))
  then have "ys = ys'" by simp
  with assms(1) show ?thesis by simp
qed

lemma figure_name_inj:
  "figure_name l k = figure_name l' k' \<Longrightarrow> l = l' \<and> k = k'"
proof -
  assume "figure_name l k = figure_name l' k'"
  then have "l @ CHR '' '' # str_nat k = l' @ CHR '' '' # str_nat k'"
    by (simp add: figure_name_def)
  from split_at_last [OF this str_nat_no_space str_nat_no_space]
  show ?thesis using str_nat_inj by blast
qed

lemma dict_set_new: "k \<notin> fst ` set d \<Longrightarrow> dict_set d k v = d @ [(k, v)]"
  by (induction d) auto

lemma unique_set: "set (unique xs) = set xs"
  by (simp add: unique_def)

lemma unique_distinct: "distinct (unique xs)"
  by (simp add: unique_def)

lemma unique_of_distinct: "distinct xs \<Longrightarrow> unique xs = xs"
  by (simp add: unique_def distinct_remdups_id)

lemma remdups_append_filter:
  "remdups (xs @ ys) = remdups (filter (\<lambda>x. x \<notin> set ys) xs) @ remdups ys"
  by (induction xs) auto

lemma unique_append:
  "unique (xs @ ys) = unique xs @ filter (\<lambda>y. y \<notin> set xs) (unique ys)"
proof -
  have "remdups (rev ys @ rev xs) = remdups (filter (\<lambda>y. y \<notin> set (rev xs)) (rev ys)) @ remdups (rev xs)"
    by (rule remdups_append_filter)
  also have "remdups (filter (\<lambda>y. y \<notin> set (rev xs)) (rev ys))
      = filter (\<lambda>y. y \<notin> set xs) (remdups (rev ys))"
    by (simp add: remdups_filter)
  finally show ?thesis by (simp add: unique_def rev_filter)
qed

lemma unique_append_subset: "set ys \<subseteq> set xs \<Longrightarrow> unique (xs @ ys) = unique xs"
proof -
  assume "set ys \<subseteq> set xs"
  then have "filter (\<lambda>y. y \<notin> set xs) (unique ys) = []"
    by (auto simp: filter_empty_conv unique_def)
  then show ?thesis by (simp add: unique_append)
qed

lemma unique_Nil: "unique [] = []"
  by (simp add: unique_def)


lemma render_page_Inr:
  assumes "render_page plot df l page rs = Inr rs'"
    and "figure_name l (fst page) \<notin> fst ` set (figures rs)"
  shows "\<exists>fig. make_figure plot df l (snd page) = Inr fig
           \<and> figures rs' = figures rs @ [(figure_name l (fst page), fig)]
           \<and> images rs' = images rs @ [as_image (figure_name l (fst page), fig)]"
proof -
  from assms(1) obtain fig where
    f: "make_figure plot df l (snd page) = Inr fig" and
    r: "rs' = rs\<lparr>figures := dict_set (figures rs) (figure_name l (fst page)) fig,
                  images := images rs @ [(image_path (figure_name l (fst page)), fig)]\<rparr>"
    by (auto simp: render_page_def split: sum.splits)
  from r dict_set_new [OF assms(2)] have
    "figures rs' = figures rs @ [(figure_name l (fst page), fig)]"
    "images rs' = images rs @ [as_image (figure_name l (fst page), fig)]"
    by (simp_all add: as_image_def)
  with f show ?thesis by blast
qed

lemma page_loop_jobs:
  assumes "page_loop plot df l pages rs = Inr rs'"
    and "distinct (map fst pages)"
    and "\<forall>page \<in> set pages. figure_name l (fst page) \<notin> fst ` set (figures rs)"
  shows "\<exists>new. figures rs' = figures rs @ new
           \<and> images rs' = images rs @ map as_image new
           \<and> list_all2 (job_done plot df) new (page_jobs l pages)"
  using assms
proof (induction pages arbitrary: rs)
  case Nil
  then show ?case by (simp add: page_jobs_def)
next
  case (Cons page pages)
  from Cons.prems(1) obtain rs1 where
    s1: "render_page plot df l page rs = Inr rs1" and
    s2: "page_loop plot df l pages rs1 = Inr rs'"
    by (auto split: sum.splits)
  from Cons.prems(3) have fresh: "figure_name l (fst page) \<notin> fst ` set (figures rs)" by simp
  from render_page_Inr [OF s1 fresh] obtain fig where
    f: "make_figure plot df l (snd page) = Inr fig" and
    g: "figures rs1 = figures rs @ [(figure_name l (fst page), fig)]" and
    i: "images rs1 = images rs @ [as_image (figure_name l (fst page), fig)]"
    by blast
  from Cons.prems(2) have d: "distinct (map fst pages)" and n: "fst page \<notin> fst ` set pages"
    by auto
  have fresh': "\<forall>page' \<in> set pages. figure_name l (fst page') \<notin> fst ` set (figures rs1)"
  proof
    fix page' assume m: "page' \<in> set pages"
    with Cons.prems(3) have a: "figure_name l (fst page') \<notin> fst ` set (figures rs)" by simp
    from m have "fst page' \<in> fst ` set pages" by (rule imageI)
    with n have "fst page' \<noteq> fst page" by metis
    then have "figure_name l (fst page') \<noteq> figure_name l (fst page)"
      using figure_name_inj by blast
    with a show "figure_name l (fst page') \<notin> fst ` set (figures rs1)" by (simp add: g)
  qed
  from Cons.IH [OF s2 d fresh'] obtain new where
    g2: "figures rs' = figures rs1 @ new" and
    i2: "images rs' = images rs1 @ map as_image new" and
    j2: "list_all2 (job_done plot df) new (page_jobs l pages)"
    by blast
  have "figures rs' = figures rs @ ((figure_name l (fst page), fig) # new)"
    by (simp add: g2 g)
  moreover have "images rs' = images rs @ map as_image ((figure_name l (fst page), fig) # new)"
    by (simp add: i2 i)
  moreover have "list_all2 (job_done plot df) ((figure_name l (fst page), fig) # new)
                   (page_jobs l (page # pages))"
    using j2 f by (simp add: page_jobs_def job_done_def)
  ultimately show ?case by blast
qed

lemma job_done_key:
  assumes "list_all2 (job_done plot df) new (page_jobs l pages)" and "entry \<in> set new"
  shows "\<exists>k. fst entry = figure_name l k"
proof -
  from assms(2) obtain j where j: "j < length new" and e: "new ! j = entry"
    by (auto simp: in_set_conv_nth)
  from list_all2_nthD [OF assms(1) j] have "job_done plot df entry (page_jobs l pages ! j)"
    by (simp add: e)
  moreover from assms(1) j have "j < length pages"
    by (simp add: list_all2_lengthD page_jobs_def)
  ultimately show ?thesis by (auto simp: job_done_def page_jobs_def)
qed

lemma label_loop_jobs:
  assumes "label_loop plot df ibp labels rs = Inr rs'"
    and "distinct labels"
    and "\<forall>l \<in> set labels. \<forall>k. figure_name l k \<notin> fst ` set (figures rs)"
  shows "\<exists>new. figures rs' = figures rs @ new
           \<and> images rs' = images rs @ map as_image new
           \<and> list_all2 (job_done plot df) new (all_jobs labels ibp)"
  using assms
proof (induction labels arbitrary: rs)
  case Nil
  then show ?case by (simp add: all_jobs_def)
next
  case (Cons l labels)
  from Cons.prems(1) obtain rs1 where
    s1: "page_loop plot df l (enumerate 1 ibp) rs = Inr rs1" and
    s2: "label_loop plot df ibp labels rs1 = Inr rs'"
    by (auto split: sum.splits)
  have d1: "distinct (map fst (enumerate 1 ibp))" by simp
  from Cons.prems(3) have f1: "\<forall>page \<in> set (enumerate 1 ibp).
      figure_name l (fst page) \<notin> fst ` set (figures rs)" by simp
  from page_loop_jobs [OF s1 d1 f1] obtain new1 where
    g1: "figures rs1 = figures rs @ new1" and
    i1: "images rs1 = images rs @ map as_image new1" and
    j1: "list_all2 (job_done plot df) new1 (page_jobs l (enumerate 1 ibp))"
    by blast
  from Cons.prems(2) have d: "distinct labels" and n: "l \<notin> set labels" by auto
  have fresh: "\<forall>l' \<in> set labels. \<forall>k. figure_name l' k \<notin> fst ` set (figures rs1)"
  proof (intro ballI allI)
    fix l' k assume m: "l' \<in> set labels"
    with Cons.prems(3) have a: "figure_name l' k \<notin> fst ` set (figures rs)" by simp
    have "figure_name l' k \<notin> fst ` set new1"
    proof
      assume "figure_name l' k \<in> fst ` set new1"
      then obtain entry where "entry \<in> set new1" and "fst entry = figure_name l' k" by auto
      with job_done_key [OF j1] obtain k' where "figure_name l' k = figure_name l k'" by metis
      with figure_name_inj have "l' = l" by blast
      with m n show False by simp
    qed
    with a show "figure_name l' k \<notin> fst ` set (figures rs1)" by (simp add: g1 image_Un)
  qed
  from Cons.IH [OF s2 d fresh] obtain new2 where
    g2: "figures rs' = figures rs1 @ new2" and
    i2: "images rs' = images rs1 @ map as_image new2" and
    j2: "list_all2 (job_done plot df) new2 (all_jobs labels ibp)"
    by blast
  have "figures rs' = figures rs @ (new1 @ new2)" by (simp add: g2 g1)
  moreover have "images rs' = images rs @ map as_image (new1 @ new2)" by (simp add: i2 i1)
  moreover have "list_all2 (job_done plot df) (new1 @ new2) (all_jobs (l # labels) ibp)"
    using j1 j2 by (simp add: all_jobs_def list_all2_appendI)
  ultimately show ?case by blast
qed


lemma column_Inr:
  "column df name field = Inr xs \<Longrightarrow> name \<in> set (fr_columns df) \<and> xs = map field (fr_points df)"
  by (auto simp: column_def split: if_splits)

lemma apply_rows_length: "apply_rows f rows = Inr ss \<Longrightarrow> length ss = length rows"
  by (induction rows arbitrary: ss) (auto split: sum.splits)

lemma make_df_Inr:
  assumes "make_df dtf tb = Inr df"
  obtains series where "length series = length (tb_rows tb)"
    and "fr_columns df = (if tb_rows tb = [] then [''variable'', ''value''] else [''t'', ''value''])
                           @ tb_columns tb"
    and "fr_points df = concat (map (\<lambda>t. map (\<lambda>(i, (r, s)).
                               \<lparr>pt_index = i, pt_t = t, pt_value = s t, pt_row = r\<rparr>)
                             (enumerate 0 (zip (tb_rows tb) series))) time_axis)"
proof -
  from assms obtain series where
    a: "apply_rows (get_multiplier dtf) (tb_rows tb) = Inr series"
    by (auto simp: make_df_def split: sum.splits)
  from assms have d: "df = \<lparr>fr_columns = (if tb_rows tb = [] then [''variable'', ''value''] else [''t'', ''value''])
                          @ tb_columns tb,
               fr_points = concat (map (\<lambda>t. map (\<lambda>(i, (r, s)).
                               \<lparr>pt_index = i, pt_t = t, pt_value = s t, pt_row = r\<rparr>)
                             (enumerate 0 (zip (tb_rows tb) series))) time_axis)\<rparr>"
    by (simp add: make_df_def a)
  show ?thesis
    by (rule that [of series]) (simp_all add: apply_rows_length [OF a] d)
qed

lemma make_df_empty:
  "make_df dtf (pd_DataFrame []) = Inr \<lparr>fr_columns = [''variable'', ''value''], fr_points = []\<rparr>"
  by (simp add: make_df_def pd_DataFrame_def)

lemma make_df_columns_empty:
  "make_df dtf (pd_DataFrame []) = Inr df \<Longrightarrow> ''variable_index'' \<notin> set (fr_columns df)"
  by (auto simp: make_df_empty)

lemma run_Inr:
  assumes "run cfg files dtf plot = Inr out"
  obtains st where
    "gdx_folders_info cfg \<noteq> []" and "variations_info cfg \<noteq> []"
    and "build_data cfg files = Inr st" and "st_data st \<noteq> []"
    and "out_data out = pd_DataFrame (st_data st)"
    and "make_df dtf (pd_DataFrame (st_data st)) = Inr (out_df out)"
    and "divide_chunks (df_indices (out_df out)) plots_pr_page = Inr (out_indices_by_page out)"
    and "list_all2 (job_done plot (out_df out)) (out_figures out)
           (all_jobs (df_labels (out_df out)) (out_indices_by_page out))"
    and "out_images out = map as_image (out_figures out)"
    and "out_html out = map snd (out_figures out)"
    and "out_pdf out = map snd (out_figures out)"
    and "out_opened out = st_opened st" and "out_stdout out = st_stdout st"
proof -
  from assms have ne: "gdx_folders_info cfg \<noteq> []" "variations_info cfg \<noteq> []"
    by (auto simp: run_def split: if_splits)
  from assms ne obtain st where b: "build_data cfg files = Inr st"
    by (auto simp: run_def split: sum.splits)
  from assms ne b obtain df where df_def: "make_df dtf (pd_DataFrame (st_data st)) = Inr df"
    by (auto simp: run_def Let_def split: sum.splits)
  from assms ne b obtain vis where
    c1: "column df ''variable_index'' (\<lambda>p. variable_index (pt_row p)) = Inr vis"
    by (auto simp: run_def Let_def df_def split: sum.splits)
  from column_Inr [OF c1] have vis: "vis = map (\<lambda>p. variable_index (pt_row p)) (fr_points df)"
    and col: "''variable_index'' \<in> set (fr_columns df)" by simp_all
  from col have rows: "st_data st \<noteq> []"
    using make_df_columns_empty [of dtf df] df_def by auto
  from assms ne b c1 obtain ibp where
    c2: "divide_chunks (unique vis) plots_pr_page = Inr ibp"
    by (auto simp: run_def Let_def df_def split: sum.splits)
  from assms ne b c1 c2 obtain labels where
    c3: "column df ''shock_label'' (\<lambda>p. shock_label (pt_row p)) = Inr labels"
    by (auto simp: run_def Let_def df_def split: sum.splits)
  from column_Inr [OF c3] have labels: "labels = map (\<lambda>p. shock_label (pt_row p)) (fr_points df)"
    by simp
  from assms ne b c1 c2 c3 obtain rs where
    c4: "label_loop plot df ibp (unique labels) \<lparr>figures = [], images = []\<rparr> = Inr rs"
    and out: "out = \<lparr>out_data = pd_DataFrame (st_data st), out_df = df,
                      out_indices_by_page = ibp,
                      out_figures = figures rs,
                      out_images = images rs,
                      out_html = map snd (figures rs),
                      out_pdf = map snd (figures rs),
                      out_opened = st_opened st,
                      out_stdout = st_stdout st\<rparr>"
    by (auto simp: run_def Let_def df_def split: sum.splits)
  have "\<exists>new. figures rs = figures \<lparr>figures = [], images = []\<rparr> @ new
           \<and> images rs = images \<lparr>figures = [], images = []\<rparr> @ map as_image new
           \<and> list_all2 (job_done plot df) new (all_jobs (unique labels) ibp)"
    by (rule label_loop_jobs [OF c4]) (simp_all add: unique_distinct)
  then have j: "list_all2 (job_done plot df) (figures rs) (all_jobs (unique labels) ibp)"
    and i: "images rs = map as_image (figures rs)"
    by auto
  show ?thesis
  proof (rule that [of st])
    show "gdx_folders_info cfg \<noteq> []" "variations_info cfg \<noteq> []" by (rule ne)+
    show "build_data cfg files = Inr st" by (rule b)
    show "st_data st \<noteq> []" by (rule rows)
    show "out_data out = pd_DataFrame (st_data st)" by (simp add: out)
    show "make_df dtf (pd_DataFrame (st_data st)) = Inr (out_df out)" by (simp add: out df_def)
    show "divide_chunks (df_indices (out_df out)) plots_pr_page = Inr (out_indices_by_page out)"
      using c2 by (simp add: out df_indices_def vis)
    show "list_all2 (job_done plot (out_df out)) (out_figures out)
           (all_jobs (df_labels (out_df out)) (out_indices_by_page out))"
      using j by (simp add: out df_labels_def labels)
    show "out_images out = map as_image (out_figures out)" using i by (simp add: out)
    show "out_html out = map snd (out_figures out)" by (simp add: out)
    show "out_pdf out = map snd (out_figures out)" by (simp add: out)
    show "out_opened out = st_opened st" "out_stdout out = st_stdout st" by (simp_all add: out)
  qed
qed


lemma example_run:
  "(case run example_config example_files example_values facet_yaxes of
      Inl e \<Rightarrow> False
    | Inr out \<Rightarrow> map fst (out_images out) = [''Output/A 1.png''])"
  by code_simp


lemma page_jobs_names:
  "map (\<lambda>job. figure_name (fst job) (fst (snd job))) (page_jobs l pages)
     = map (figure_name l) (map fst pages)"
  by (simp add: page_jobs_def o_def)

lemma all_jobs_names:
  "map (\<lambda>job. figure_name (fst job) (fst (snd job))) (all_jobs labels ibp)
     = page_names labels (length ibp)"
proof -
  have "map fst (enumerate 1 ibp) = [1..<Suc (length ibp)]"
    by (simp del: upt_Suc)
  then show ?thesis
    by (simp add: all_jobs_def page_names_def map_concat o_def page_jobs_names del: upt_Suc)
qed

lemma jobs_names:
  "list_all2 (job_done plot df) figs jobs \<Longrightarrow>
     map fst figs = map (\<lambda>job. figure_name (fst job) (fst (snd job))) jobs"
  by (induction rule: list_all2_induct) (simp_all add: job_done_def)

lemma page_names_product:
  "page_names labels n = map (\<lambda>(l, k). figure_name l k) (List.product labels [1..<Suc n])"
  by (simp add: page_names_def product_concat_map map_concat o_def)

lemma distinct_page_names: "distinct labels \<Longrightarrow> distinct (page_names labels n)"
proof -
  assume d: "distinct labels"
  have "inj_on (\<lambda>(l, k). figure_name l k) A" for A
    by (rule inj_onI) (use figure_name_inj in auto)
  moreover have "distinct (List.product labels [1..<Suc n])"
    using d by (simp add: distinct_product)
  ultimately show ?thesis unfolding page_names_product by (simp add: distinct_map)
qed

lemma length_page_names: "length (page_names labels n) = length labels * n"
  by (induction labels) (simp_all add: page_names_def)

lemma image_path_inj: "inj image_path"
  by (rule injI) (simp add: image_path_def)

lemma make_figure_data:
  "make_figure plot df l indices = Inr fig \<Longrightarrow>
     fig_data fig = filter (\<lambda>p. shock_label (pt_row p) = l \<and> variable_index (pt_row p) \<in> set indices)
                      (fr_points df)"
  by (auto simp: make_figure_def Let_def split: sum.splits)

lemma all_jobs_member:
  assumes "job \<in> set (all_jobs labels ibp)"
  shows "fst job \<in> set labels \<and> 1 \<le> fst (snd job) \<and> fst (snd job) - 1 < length ibp
       \<and> snd (snd job) = ibp ! (fst (snd job) - 1)"
proof -
  from assms obtain l page where l: "l \<in> set labels" and p: "page \<in> set (enumerate 1 ibp)"
    and j: "job = (l, fst page, snd page)"
    by (auto simp: all_jobs_def page_jobs_def)
  obtain k x where page: "page = (k, x)" by (cases page)
  from p have k: "1 \<le> k" "k < 1 + length ibp" and x: "x = ibp ! (k - 1)"
    unfolding page by (simp_all add: in_set_enumerate_eq)
  from k have "k - 1 < length ibp" by arith
  with k x l show ?thesis by (simp add: j page)
qed

lemma figures_member:
  assumes "list_all2 (job_done plot df) figs (all_jobs labels ibp)" and "entry \<in> set figs"
  shows "\<exists>l \<in> set labels. \<exists>k < length ibp. fst entry = figure_name l (Suc k)
           \<and> make_figure plot df l (ibp ! k) = Inr (snd entry)"
proof -
  from assms(2) obtain j where j: "j < length figs" and e: "figs ! j = entry"
    by (auto simp: in_set_conv_nth)
  let ?job = "all_jobs labels ibp ! j"
  from list_all2_nthD [OF assms(1) j] have d: "job_done plot df entry ?job" by (simp add: e)
  from assms(1) j have "j < length (all_jobs labels ibp)" by (simp add: list_all2_lengthD)
  then have "?job \<in> set (all_jobs labels ibp)" by simp
  from all_jobs_member [OF this] have m: "fst ?job \<in> set labels" "1 \<le> fst (snd ?job)"
    "fst (snd ?job) - 1 < length ibp" "snd (snd ?job) = ibp ! (fst (snd ?job) - 1)"
    by simp_all
  from m(2) have s: "Suc (fst (snd ?job) - 1) = fst (snd ?job)" by simp
  from d have "fst entry = figure_name (fst ?job) (Suc (fst (snd ?job) - 1))"
    "make_figure plot df (fst ?job) (ibp ! (fst (snd ?job) - 1)) = Inr (snd entry)"
    unfolding s by (simp_all add: job_done_def m(4))
  with m(1,3) show ?thesis by blast
qed

text \<open>
  Claim C7. When the run ends normally, the figures handed to the HTML export and to the
  PDF export are the same list: exactly the figures generated, one entry each, in the order
  of generation (the order in which their images were written), which is the labels of
  \<^verbatim>\<open>df.shock_label.unique()\<close> in the outer loop and the pages \<open>1, 2, ...\<close> in the inner loop.
  No two figures have the same name, so the dictionary drops none.
\<close>

theorem report_in_generation_order:
  assumes "run cfg files dtf plot = Inr out"
  shows "out_html out = map snd (out_images out)
       \<and> out_pdf out = map snd (out_images out)
       \<and> map fst (out_images out)
           = map image_path (page_names (df_labels (out_df out)) (length (out_indices_by_page out)))
       \<and> distinct (map fst (out_images out))
       \<and> length (out_html out) = length (df_labels (out_df out)) * length (out_indices_by_page out)"
proof -
  from assms obtain st where
    j: "list_all2 (job_done plot (out_df out)) (out_figures out)
           (all_jobs (df_labels (out_df out)) (out_indices_by_page out))"
    and i: "out_images out = map as_image (out_figures out)"
    and h: "out_html out = map snd (out_figures out)"
    and p: "out_pdf out = map snd (out_figures out)"
    by (rule run_Inr)
  have s: "map snd (out_images out) = map snd (out_figures out)"
    by (simp add: i as_image_def o_def)
  have n: "map fst (out_figures out)
      = page_names (df_labels (out_df out)) (length (out_indices_by_page out))"
    using jobs_names [OF j] by (simp only: all_jobs_names)
  have f: "map fst (out_images out) = map image_path (map fst (out_figures out))"
    by (simp add: i as_image_def o_def)
  have d: "distinct (map fst (out_images out))"
    unfolding f n
    by (simp add: distinct_map distinct_page_names df_labels_def unique_distinct
          inj_on_subset [OF image_path_inj])
  have l: "length (out_html out) = length (df_labels (out_df out)) * length (out_indices_by_page out)"
    using arg_cong [OF n, of length] by (simp add: h length_page_names)
  from h p s f n d l show ?thesis by simp
qed


lemma example_run_all:
  "(case run example_config example_files_all example_values facet_yaxes of
      Inl e \<Rightarrow> False
    | Inr out \<Rightarrow> map fst (out_images out) = [''Output/A 1.png'', ''Output/B 1.png'']
        \<and> out_indices_by_page out = [[0, 1]])"
  by code_simp

lemma merged_run:
  "(case run merged_config example_files_all example_values facet_yaxes of
      Inl e \<Rightarrow> False
    | Inr out \<Rightarrow> map fst (out_figures out) = [''A 1'']
        \<and> remdups (map (\<lambda>p. shock_name (pt_row p)) (concat (map fig_data (out_html out))))
            = [''a'', ''b''])"
  by code_simp

theorem report_in_generation_order_witness:
  "\<exists>out. run example_config example_files_all example_values facet_yaxes = Inr out
     \<and> out_html out = map snd (out_images out)
     \<and> out_pdf out = map snd (out_images out)
     \<and> map fst (out_images out) = [''Output/A 1.png'', ''Output/B 1.png'']
     \<and> length (out_html out) = 2"
proof -
  from example_run_all obtain out where
    r: "run example_config example_files_all example_values facet_yaxes = Inr out"
    and n: "map fst (out_images out) = [''Output/A 1.png'', ''Output/B 1.png'']"
    by (cases "run example_config example_files_all example_values facet_yaxes") auto
  from report_in_generation_order [OF r]
  have h: "out_html out = map snd (out_images out)" "out_pdf out = map snd (out_images out)"
    by blast+
  from n have "length (map fst (out_images out)) = 2" by simp
  then have "length (out_html out) = 2" by (simp add: h)
  with r h n show ?thesis by (intro exI [of _ out] conjI)
qed

text \<open>
  Claim C8. The figures are keyed by \<^verbatim>\<open><shock label> <page number>\<close>, one per distinct shock
  label of the frame and page. The rows of a figure are selected by label and page alone:
  any record of the frame with the same label and variable index as a record of a figure
  is in that figure too, whatever its shock name. Two shock names with one label are thus
  merged into one set of figures.
\<close>

theorem figures_per_label:
  assumes "run cfg files dtf plot = Inr out"
  shows "map fst (out_figures out)
           = page_names (df_labels (out_df out)) (length (out_indices_by_page out))
       \<and> distinct (df_labels (out_df out))
       \<and> set (df_labels (out_df out)) = (\<lambda>p. shock_label (pt_row p)) ` set (fr_points (out_df out))
       \<and> (\<forall>entry \<in> set (out_figures out).
            \<exists>l \<in> set (df_labels (out_df out)). \<exists>k < length (out_indices_by_page out).
              fst entry = figure_name l (Suc k)
            \<and> fig_data (snd entry)
                = filter (\<lambda>p. shock_label (pt_row p) = l
                             \<and> variable_index (pt_row p) \<in> set (out_indices_by_page out ! k))
                    (fr_points (out_df out)))
       \<and> (\<forall>fig \<in> set (out_html out). \<forall>p \<in> set (fig_data fig). \<forall>q \<in> set (fr_points (out_df out)).
            shock_label (pt_row q) = shock_label (pt_row p)
          \<and> variable_index (pt_row q) = variable_index (pt_row p)
          \<longrightarrow> q \<in> set (fig_data fig))"
proof -
  from assms obtain st where
    j: "list_all2 (job_done plot (out_df out)) (out_figures out)
           (all_jobs (df_labels (out_df out)) (out_indices_by_page out))"
    and h: "out_html out = map snd (out_figures out)"
    by (rule run_Inr)
  have n: "map fst (out_figures out)
      = page_names (df_labels (out_df out)) (length (out_indices_by_page out))"
    using jobs_names [OF j] by (simp only: all_jobs_names)
  have d: "distinct (df_labels (out_df out))"
    and s: "set (df_labels (out_df out)) = (\<lambda>p. shock_label (pt_row p)) ` set (fr_points (out_df out))"
    by (simp_all add: df_labels_def unique_distinct unique_set)
  have e: "\<exists>l \<in> set (df_labels (out_df out)). \<exists>k < length (out_indices_by_page out).
              fst entry = figure_name l (Suc k)
            \<and> fig_data (snd entry)
                = filter (\<lambda>p. shock_label (pt_row p) = l
                             \<and> variable_index (pt_row p) \<in> set (out_indices_by_page out ! k))
                    (fr_points (out_df out))"
    if "entry \<in> set (out_figures out)" for entry
  proof -
    from figures_member [OF j that] obtain l k where
      "l \<in> set (df_labels (out_df out))" "k < length (out_indices_by_page out)"
      "fst entry = figure_name l (Suc k)"
      "make_figure plot (out_df out) l (out_indices_by_page out ! k) = Inr (snd entry)"
      by blast
    with make_figure_data [OF this(4)] show ?thesis by blast
  qed
  have m: "q \<in> set (fig_data fig)"
    if "fig \<in> set (out_html out)" "p \<in> set (fig_data fig)" "q \<in> set (fr_points (out_df out))"
      "shock_label (pt_row q) = shock_label (pt_row p)"
      "variable_index (pt_row q) = variable_index (pt_row p)" for fig p q
  proof -
    from that(1) obtain entry where en: "entry \<in> set (out_figures out)" and f: "fig = snd entry"
      by (auto simp: h)
    from e [OF en] obtain l k where
      fd: "fig_data fig = filter (\<lambda>p. shock_label (pt_row p) = l
                             \<and> variable_index (pt_row p) \<in> set (out_indices_by_page out ! k))
                    (fr_points (out_df out))"
      unfolding f by blast
    from that(2) have "shock_label (pt_row p) = l"
      "variable_index (pt_row p) \<in> set (out_indices_by_page out ! k)"
      unfolding fd by simp_all
    with that(3,4,5) show ?thesis unfolding fd by simp
  qed
  from n d s e m show ?thesis by blast
qed

theorem figures_per_label_witness:
  "\<exists>out. run merged_config example_files_all example_values facet_yaxes = Inr out
     \<and> shock_names merged_config = [''a'', ''b'']
     \<and> shock_labels merged_config = [''A'', ''A'']
     \<and> map fst (out_figures out) = [''A 1'']
     \<and> remdups (map (\<lambda>p. shock_name (pt_row p)) (concat (map fig_data (out_html out))))
            = [''a'', ''b'']
     \<and> distinct (df_labels (out_df out))"
proof -
  from merged_run obtain out where
    r: "run merged_config example_files_all example_values facet_yaxes = Inr out"
    and n: "map fst (out_figures out) = [''A 1'']"
       "remdups (map (\<lambda>p. shock_name (pt_row p)) (concat (map fig_data (out_html out))))
            = [''a'', ''b'']"
    by (cases "run merged_config example_files_all example_values facet_yaxes") auto
  have c: "shock_names merged_config = [''a'', ''b'']" "shock_labels merged_config = [''A'', ''A'']"
    by (simp_all add: merged_config_def example_config_def shock_labels_def DA_def)
  from figures_per_label [OF r] have "distinct (df_labels (out_df out))" by blast
  with r n c show ?thesis by (intro exI [of _ out] conjI)
qed





lemma first_baseline_missing:
  assumes "gdx_folders_info cfg = fl # fls" and "baseline_path (fst fl) \<notin> files"
  shows "build_data cfg files = Inl ValueError"
  using assms by (simp add: build_data_def Gdx_def)

lemma apply_rows_error:
  "r \<in> set rows \<Longrightarrow> f r = Inl e \<Longrightarrow> \<exists>e'. apply_rows f rows = Inl e'"
  by (induction rows) (auto split: sum.splits)

lemma extraction_error_ends_run:
  assumes "gdx_folders_info cfg \<noteq> []" and "variations_info cfg \<noteq> []"
    and "build_data cfg files = Inr st"
    and "r \<in> set (st_data st)" and "get_multiplier dtf r = Inl e"
  shows "\<exists>e'. run cfg files dtf plot = Inl e'"
proof -
  have t: "tb_rows (pd_DataFrame (st_data st)) = st_data st" by (simp add: pd_DataFrame_def)
  from apply_rows_error [of r "st_data st" "get_multiplier dtf" e, OF assms(4,5)] obtain e' where
    "apply_rows (get_multiplier dtf) (st_data st) = Inl e'" by blast
  then have "make_df dtf (pd_DataFrame (st_data st)) = Inl e'"
    by (simp add: make_df_def t)
  with assms(1,2,3) have "run cfg files dtf plot = Inl e'" by (simp add: run_def Let_def)
  then show ?thesis ..
qed


lemma skipped_run:
  "run skipped_config example_files example_values facet_yaxes = Inl AttributeError"
  by code_simp



section \<open>Shocks in the table and in the report\<close>

lemma make_df_rows:
  assumes "make_df dtf tb = Inr df" and "p \<in> set (fr_points df)"
  shows "pt_row p \<in> set (tb_rows tb)"
proof -
  from assms(1) obtain series where l: "length series = length (tb_rows tb)"
    and f: "fr_points df = concat (map (\<lambda>t. map (\<lambda>(i, (r, s)).
                               \<lparr>pt_index = i, pt_t = t, pt_value = s t, pt_row = r\<rparr>)
                             (enumerate 0 (zip (tb_rows tb) series))) time_axis)"
    by (rule make_df_Inr)
  from assms(2) obtain i r s where
    m: "(i, (r, s)) \<in> set (enumerate 0 (zip (tb_rows tb) series))"
    and r: "pt_row p = r"
    unfolding f by auto
  from m have "(r, s) \<in> set (zip (tb_rows tb) series)"
    unfolding enumerate_eq_zip by (rule set_zip_rightD)
  then have "r \<in> set (tb_rows tb)" by (rule set_zip_leftD)
  with r show ?thesis by simp
qed

lemma map_snd_enumerate_fun: "map (\<lambda>x. f (snd x)) (enumerate n xs) = map f xs"
  by (induction xs arbitrary: n) simp_all

lemma make_df_map:
  assumes "make_df dtf tb = Inr df"
  shows "map (\<lambda>p. f (pt_row p)) (fr_points df)
     = concat (map (\<lambda>t. map f (tb_rows tb)) time_axis)"
proof -
  from assms obtain series where l: "length series = length (tb_rows tb)"
    and p: "fr_points df = concat (map (\<lambda>t. map (\<lambda>(i, (r, s)).
                               \<lparr>pt_index = i, pt_t = t, pt_value = s t, pt_row = r\<rparr>)
                             (enumerate 0 (zip (tb_rows tb) series))) time_axis)"
    by (rule make_df_Inr)
  have "map (\<lambda>x. f (fst (snd x))) (enumerate 0 (zip (tb_rows tb) series))
          = map (\<lambda>y. f (fst y)) (zip (tb_rows tb) series)"
    by (rule map_snd_enumerate_fun [of "\<lambda>y. f (fst y)"])
  also have "\<dots> = map f (map fst (zip (tb_rows tb) series))" by (simp add: o_def)
  also have "\<dots> = map f (tb_rows tb)" using l by simp
  finally have e: "map (\<lambda>x. f (fst (snd x))) (enumerate 0 (zip (tb_rows tb) series))
          = map f (tb_rows tb)" .
  show ?thesis
    unfolding p by (simp add: map_concat o_def split_def e)
qed

lemma time_axis_Cons: "time_axis = 2029 # [2030..2045]"
  by (simp add: time_axis_def t1_def T_def upto_rec1)

lemma time_axis_nonempty: "time_axis \<noteq> []"
  by (simp add: time_axis_Cons)

lemma unique_repeat: "ts \<noteq> [] \<Longrightarrow> unique (concat (map (\<lambda>t. xs) ts)) = unique xs"
proof -
  assume "ts \<noteq> []"
  then obtain t ts' where ts: "ts = t # ts'" by (cases ts) auto
  have "set (concat (map (\<lambda>t. xs) ts')) \<subseteq> set xs" by auto
  then show ?thesis by (simp add: ts unique_append_subset)
qed

lemma df_labels_rows:
  assumes "make_df dtf (pd_DataFrame rows) = Inr df"
  shows "df_labels df = unique (map shock_label rows)"
proof -
  have "tb_rows (pd_DataFrame rows) = rows" by (simp add: pd_DataFrame_def)
  then show ?thesis
    unfolding df_labels_def make_df_map [OF assms, of shock_label]
    by (simp add: unique_repeat time_axis_nonempty)
qed

lemma df_indices_rows:
  assumes "make_df dtf (pd_DataFrame rows) = Inr df"
  shows "df_indices df = unique (map variable_index rows)"
proof -
  have "tb_rows (pd_DataFrame rows) = rows" by (simp add: pd_DataFrame_def)
  then show ?thesis
    unfolding df_indices_def make_df_map [OF assms, of variable_index]
    by (simp add: unique_repeat time_axis_nonempty)
qed

lemma erase_keeps:
  "shock_label (erase_handles r) = shock_label r"
  "shock_name (erase_handles r) = shock_name r"
  "variable_index (erase_handles r) = variable_index r"
  by (simp_all add: erase_handles_def)

lemma table_fields:
  assumes "build_data cfg files = Inr st"
  shows "map shock_label (st_data st) = map shock_label (plain_table cfg files)"
    and "map variable_index (st_data st) = map variable_index (plain_table cfg files)"
proof -
  have "map shock_label (st_data st) = map shock_label (map erase_handles (st_data st))"
    by (simp add: o_def erase_keeps)
  then show "map shock_label (st_data st) = map shock_label (plain_table cfg files)"
    by (simp only: build_data_summary(1) [OF assms])
  have "map variable_index (st_data st) = map variable_index (map erase_handles (st_data st))"
    by (simp add: o_def erase_keeps)
  then show "map variable_index (st_data st) = map variable_index (plain_table cfg files)"
    by (simp only: build_data_summary(1) [OF assms])
qed

lemma shock_step_nonempty:
  assumes "shock_step cfg files fl bl entry st = Inr st'" and "tails_ok cfg st"
    and "shock_files_exist cfg files (fst entry)"
  shows "variable_labels cfg \<noteq> [] \<and> get_variable_functions cfg \<noteq> [] \<and> operators cfg \<noteq> []"
proof -
  obtain name label lDK lEN g opr where entry: "entry = (name, label, lDK, lEN, g, opr)"
    by (cases entry) auto
  from assms(1,3) obtain st1 where "override_first (lDK, lEN, g, opr) st = Inr st1"
    by (auto simp: shock_step_def entry split: sum.splits)
  then obtain labels gs oprs where
    "set_first (st_variable_labels st) (if DA then lDK else lEN) = Inr labels"
    "set_first (st_get_variable_functions st) g = Inr gs"
    "set_first (st_operators st) opr = Inr oprs"
    by (auto simp: override_first_def split: sum.splits)
  from this [THEN set_first_Inr] have "st_variable_labels st \<noteq> []"
    "st_get_variable_functions st \<noteq> []" "st_operators st \<noteq> []" by simp_all
  with assms(2) show ?thesis by (auto simp: tails_ok_def)
qed

lemma shock_loop_nonempty:
  assumes "shock_loop cfg files fl bl entries st = Inr st'" and "tails_ok cfg st"
    and "\<exists>e \<in> set entries. shock_files_exist cfg files (fst e)"
  shows "variable_labels cfg \<noteq> [] \<and> get_variable_functions cfg \<noteq> [] \<and> operators cfg \<noteq> []"
  using assms
proof (induction entries arbitrary: st)
  case Nil
  then show ?case by simp
next
  case (Cons e entries)
  from Cons.prems(1) obtain st1 where
    s1: "shock_step cfg files fl bl e st = Inr st1" and
    s2: "shock_loop cfg files fl bl entries st1 = Inr st'"
    by (auto split: sum.splits)
  show ?case
  proof (cases "shock_files_exist cfg files (fst e)")
    case True
    from shock_step_nonempty [OF s1 Cons.prems(2) True] show ?thesis .
  next
    case False
    with Cons.prems(3) have ex: "\<exists>e \<in> set entries. shock_files_exist cfg files (fst e)" by auto
    from shock_step_summary [OF s1 Cons.prems(2)] have "tails_ok cfg st1" by blast
    from Cons.IH [OF s2 this ex] show ?thesis .
  qed
qed

lemma build_data_nonempty:
  assumes "build_data cfg files = Inr st" and "gdx_folders_info cfg \<noteq> []"
    and "surviving cfg files \<noteq> []"
  shows "variable_labels cfg \<noteq> [] \<and> get_variable_functions cfg \<noteq> [] \<and> operators cfg \<noteq> []"
proof -
  from assms(2) obtain fl fls where f: "gdx_folders_info cfg = fl # fls"
    by (cases "gdx_folders_info cfg") auto
  let ?st1 = "(initial_state cfg)\<lparr>st_opened := st_opened (initial_state cfg) @ [baseline_path (fst fl)]\<rparr>"
  from assms(1) obtain st2 where
    s: "shock_loop cfg files fl (length (st_opened (initial_state cfg))) (shock_entries cfg) ?st1 = Inr st2"
    by (auto simp: build_data_def f Gdx_def split: sum.splits if_splits)
  have t: "tails_ok cfg ?st1" using tails_ok_initial [of cfg] by (simp add: tails_ok_def)
  from hd_in_set [OF assms(3)] have "\<exists>e \<in> set (shock_entries cfg). shock_files_exist cfg files (fst e)"
    by (auto simp: surviving_def)
  from shock_loop_nonempty [OF s t this] show ?thesis .
qed

lemma shock_variables_length:
  assumes "variable_labels cfg \<noteq> []" and "get_variable_functions cfg \<noteq> []"
    and "operators cfg \<noteq> []"
  shows "length (shock_variables cfg info) = n_variables cfg"
  using assms
  by (cases "variable_labels cfg"; cases "get_variable_functions cfg"; cases "operators cfg")
     (simp_all add: shock_variables_def n_variables_def split_def)

lemma shock_variables_pos: "0 < length (shock_variables cfg info)"
  by (simp add: shock_variables_def split_def)

lemma plain_row_index: "variable_index (plain_row fl sh var x) = fst x"
  by (simp add: plain_row_def split_def)

lemma plain_row_label: "shock_label (plain_row fl sh var x) = snd sh"
  by (simp add: plain_row_def split_def)

lemma plain_block_indices:
  "map variable_index (map (plain_row fl sh var) (enumerate 0 xs)) = [0..<length xs]"
proof -
  have "map variable_index (map (plain_row fl sh var) (enumerate 0 xs)) = map fst (enumerate 0 xs)"
    by (simp add: o_def plain_row_index)
  then show ?thesis by simp
qed

lemma plain_table_head:
  assumes "gdx_folders_info cfg \<noteq> []" and "surviving cfg files \<noteq> []" and "variations cfg \<noteq> []"
  shows "\<exists>rest. map variable_index (plain_table cfg files)
             = [0..<length (shock_variables cfg (snd (snd (hd (surviving cfg files)))))] @ rest"
proof -
  from assms obtain fl fls e es v vs where
    f: "gdx_folders_info cfg = fl # fls" and s: "surviving cfg files = e # es"
    and v: "variations cfg = v # vs"
    by (cases "gdx_folders_info cfg"; cases "surviving cfg files"; cases "variations cfg") auto
  have "plain_table cfg files
      = map (plain_row fl (fst e, fst (snd e)) v) (enumerate 0 (shock_variables cfg (snd (snd e))))
        @ (concat (map (\<lambda>var. map (plain_row fl (fst e, fst (snd e)) var)
                            (enumerate 0 (shock_variables cfg (snd (snd e))))) vs)
           @ concat (map (plain_rows cfg fl) es)
           @ concat (map (\<lambda>fl. concat (map (plain_rows cfg fl) (surviving cfg files))) fls))"
    by (simp add: plain_table_def f s plain_rows_def v)
  then have "map variable_index (plain_table cfg files)
      = [0..<length (shock_variables cfg (snd (snd e)))]
        @ map variable_index (concat (map (\<lambda>var. map (plain_row fl (fst e, fst (snd e)) var)
                            (enumerate 0 (shock_variables cfg (snd (snd e))))) vs)
           @ concat (map (plain_rows cfg fl) es)
           @ concat (map (\<lambda>fl. concat (map (plain_rows cfg fl) (surviving cfg files))) fls))"
    by (simp only: map_append plain_block_indices)
  then show ?thesis by (simp only: s list.sel) blast
qed

lemma plain_table_index_bound:
  assumes "p \<in> set (plain_table cfg files)"
    and "variable_labels cfg \<noteq> []" and "get_variable_functions cfg \<noteq> []" and "operators cfg \<noteq> []"
  shows "variable_index p < n_variables cfg"
proof -
  from plain_table_member [OF assms(1)] obtain fl entry var i where
    "i < length (shock_variables cfg (snd (snd entry)))"
    "p = plain_row fl (fst entry, fst (snd entry)) var (i, shock_variables cfg (snd (snd entry)) ! i)"
    by blast
  then show ?thesis
    by (simp add: plain_row_index shock_variables_length [OF assms(2,3,4)])
qed

lemma variations_nonempty: "variations_info cfg \<noteq> [] \<Longrightarrow> variations cfg \<noteq> []"
  by (cases "variations_info cfg")
     (simp_all add: variations_def shock_variation_suffixes_def shock_variation_labels_def)

lemma indices_unique:
  assumes "build_data cfg files = Inr st" and "gdx_folders_info cfg \<noteq> []"
    and "variations_info cfg \<noteq> []" and "surviving cfg files \<noteq> []"
  shows "unique (map variable_index (st_data st)) = [0..<n_variables cfg]"
proof -
  note ne = build_data_nonempty [OF assms(1,2,4)]
  from ne have len: "length (shock_variables cfg info) = n_variables cfg" for info
    by (simp add: shock_variables_length)
  from plain_table_head [OF assms(2,4) variations_nonempty [OF assms(3)]] obtain rest where
    h: "map variable_index (plain_table cfg files) = [0..<n_variables cfg] @ rest"
    unfolding len by blast
  have "set rest \<subseteq> set [0..<n_variables cfg]"
  proof
    fix i assume "i \<in> set rest"
    then have "i \<in> set (map variable_index (plain_table cfg files))" by (simp add: h)
    then obtain p where "p \<in> set (plain_table cfg files)" "i = variable_index p" by auto
    with plain_table_index_bound [of p cfg files] ne show "i \<in> set [0..<n_variables cfg]"
      by simp
  qed
  then have "unique ([0..<n_variables cfg] @ rest) = unique [0..<n_variables cfg]"
    by (rule unique_append_subset)
  then show ?thesis
    by (simp add: table_fields(2) [OF assms(1)] h unique_of_distinct)
qed

lemma plain_table_intro:
  "fl \<in> set (gdx_folders_info cfg) \<Longrightarrow> e \<in> set (surviving cfg files) \<Longrightarrow>
   var \<in> set (variations cfg) \<Longrightarrow> x \<in> set (enumerate 0 (shock_variables cfg (snd (snd e)))) \<Longrightarrow>
   plain_row fl (fst e, fst (snd e)) var x \<in> set (plain_table cfg files)"
  by (auto simp: plain_table_def plain_rows_def)

lemma surviving_label_present:
  assumes "build_data cfg files = Inr st" and "gdx_folders_info cfg \<noteq> []"
    and "variations_info cfg \<noteq> []" and "e \<in> set (surviving cfg files)"
  shows "fst (snd e) \<in> set (map shock_label (st_data st))"
proof -
  let ?x = "(0::nat, shock_variables cfg (snd (snd e)) ! 0)"
  have x: "?x \<in> set (enumerate 0 (shock_variables cfg (snd (snd e))))"
    using shock_variables_pos [of cfg "snd (snd e)"] by (simp add: in_set_enumerate_eq)
  from plain_table_intro [OF hd_in_set [OF assms(2)] assms(4)
         hd_in_set [OF variations_nonempty [OF assms(3)]] x]
  have "shock_label (plain_row (hd (gdx_folders_info cfg)) (fst e, fst (snd e))
            (hd (variations cfg)) ?x) \<in> set (map shock_label (plain_table cfg files))"
    by simp
  then show ?thesis
    by (simp only: table_fields(1) [OF assms(1)] plain_row_label snd_conv)
qed

lemma row_entry:
  assumes "build_data cfg files = Inr st" and "r \<in> set (st_data st)"
  shows "\<exists>e \<in> set (surviving cfg files). shock_name r = fst e \<and> shock_label r = fst (snd e)"
proof -
  from row_origin [OF assms] obtain fl entry var i where
    en: "entry \<in> set (surviving cfg files)"
    and r: "erase_handles r = plain_row fl (fst entry, fst (snd entry)) var
                               (i, shock_variables cfg (snd (snd entry)) ! i)"
    by blast
  obtain vl g opr where x: "shock_variables cfg (snd (snd entry)) ! i = (vl, g, opr)"
    by (cases "shock_variables cfg (snd (snd entry)) ! i") auto
  from row_erase_fields [OF r [unfolded x]]
  have "shock_name r = fst entry" "shock_label r = fst (snd entry)" by simp_all
  with en show ?thesis by blast
qed

lemma filter_all: "(\<forall>x \<in> set xs. P x) \<Longrightarrow> filter P xs = xs"
  by (induction xs) simp_all

lemma filter_none: "(\<forall>x \<in> set xs. \<not> P x) \<Longrightarrow> filter P xs = []"
  by (induction xs) simp_all

lemma page_names_Cons:
  "page_names (l # ls) n = map (figure_name l) [1..<Suc n] @ page_names ls n"
  by (simp add: page_names_def del: upt_Suc)

lemma page_names_other: "L \<notin> set labels \<Longrightarrow> figure_name L k \<notin> set (page_names labels n)"
proof (induction labels)
  case Nil
  show ?case by (simp add: page_names_def)
next
  case (Cons l ls)
  then have "L \<noteq> l" and ih: "figure_name L k \<notin> set (page_names ls n)" by simp_all
  from \<open>L \<noteq> l\<close> have "figure_name L k \<notin> set (map (figure_name l) [1..<Suc n])"
    using figure_name_inj by fastforce
  with ih show ?case by (simp add: page_names_Cons del: upt_Suc)
qed

lemma filter_page_names:
  assumes "distinct labels" and "L \<in> set labels"
  shows "filter (\<lambda>name. \<exists>k. name = figure_name L k) (page_names labels n)
           = map (figure_name L) [1..<Suc n]"
  using assms
proof (induction labels)
  case Nil
  then show ?case by simp
next
  case (Cons l ls)
  let ?P = "\<lambda>name. \<exists>k. name = figure_name L k"
  show ?case
  proof (cases "l = L")
    case True
    with Cons.prems have "L \<notin> set ls" by simp
    then have "\<forall>x \<in> set (page_names ls n). \<not> ?P x"
      using page_names_other [of L ls _ n] by blast
    then have a: "filter ?P (page_names ls n) = []" by (rule filter_none)
    have "\<forall>x \<in> set (map (figure_name L) [1..<Suc n]). ?P x" by auto
    then have b: "filter ?P (map (figure_name L) [1..<Suc n]) = map (figure_name L) [1..<Suc n]"
      by (rule filter_all)
    show ?thesis unfolding page_names_Cons filter_append True a b by simp
  next
    case False
    with Cons.prems have m: "L \<in> set ls" and d: "distinct ls" by simp_all
    have "\<forall>x \<in> set (map (figure_name l) [1..<Suc n]). \<not> ?P x"
      using False figure_name_inj by fastforce
    then have a: "filter ?P (map (figure_name l) [1..<Suc n]) = []" by (rule filter_none)
    show ?thesis unfolding page_names_Cons filter_append a using Cons.IH [OF d m] by simp
  qed
qed

lemma chunks_count:
  assumes "divide_chunks xs plots_pr_page = Inr ibp"
  shows "length ibp = (length xs + nat plots_pr_page - 1) div nat plots_pr_page"
proof -
  have p: "plots_pr_page = int 18"
    by (simp add: plots_pr_page_def columns_pr_page_def rows_pr_page_def)
  from assms divide_chunks_pos [of 18 xs] show ?thesis unfolding p by auto
qed

text \<open>
  Claim C5. When the run ends normally, for a configured shock whose files are all present,
  the figures named after its label are exactly the pages \<open>1, ..., n\<close>, one figure each, where
  \<open>n\<close> is the number of chunks of the variable-index list \<open>[0, ..., number of variables - 1]\<close>
  under \<open>divide_chunks\<close> with the page size \<open>columns_pr_page * rows_pr_page = 18\<close>, that is
  \<open>(number of variables + 17) div 18\<close>. The number of variables is the length of the zip of
  the three configured lists, which is the length of the label list when they agree.
\<close>

theorem figures_per_surviving_shock:
  assumes "run cfg files dtf plot = Inr out"
    and "entry \<in> set (shock_entries cfg)" and "shock_files_exist cfg files (fst entry)"
  shows "filter (\<lambda>name. \<exists>k. name = figure_name (fst (snd entry)) k) (map fst (out_figures out))
           = map (figure_name (fst (snd entry))) [1..<Suc (length (out_indices_by_page out))]
       \<and> divide_chunks [0..<n_variables cfg] plots_pr_page = Inr (out_indices_by_page out)
       \<and> length (out_indices_by_page out)
           = (n_variables cfg + nat plots_pr_page - 1) div nat plots_pr_page
       \<and> nat plots_pr_page = 18
       \<and> (length (get_variable_functions cfg) = length (variable_labels cfg)
            \<and> length (operators cfg) = length (variable_labels cfg)
          \<longrightarrow> n_variables cfg = length (variable_labels cfg))"
proof -
  from assms(1) obtain st where
    f: "gdx_folders_info cfg \<noteq> []" and v: "variations_info cfg \<noteq> []"
    and b: "build_data cfg files = Inr st"
    and df: "make_df dtf (pd_DataFrame (st_data st)) = Inr (out_df out)"
    and c: "divide_chunks (df_indices (out_df out)) plots_pr_page = Inr (out_indices_by_page out)"
    and j: "list_all2 (job_done plot (out_df out)) (out_figures out)
           (all_jobs (df_labels (out_df out)) (out_indices_by_page out))"
    by (rule run_Inr)
  from assms(2,3) have s: "entry \<in> set (surviving cfg files)" by (simp add: surviving_def)
  then have sn: "surviving cfg files \<noteq> []" by auto
  have i: "df_indices (out_df out) = [0..<n_variables cfg]"
    unfolding df_indices_rows [OF df] by (rule indices_unique [OF b f v sn])
  from c have c': "divide_chunks [0..<n_variables cfg] plots_pr_page = Inr (out_indices_by_page out)"
    unfolding i .
  from chunks_count [OF c'] have n: "length (out_indices_by_page out)
           = (n_variables cfg + nat plots_pr_page - 1) div nat plots_pr_page"
    by simp
  have l: "fst (snd entry) \<in> set (df_labels (out_df out))"
    unfolding df_labels_rows [OF df] unique_set by (rule surviving_label_present [OF b f v s])
  have d: "distinct (df_labels (out_df out))" by (simp add: df_labels_def unique_distinct)
  have k: "map fst (out_figures out)
      = page_names (df_labels (out_df out)) (length (out_indices_by_page out))"
    using jobs_names [OF j] by (simp only: all_jobs_names)
  have 1: "filter (\<lambda>name. \<exists>k. name = figure_name (fst (snd entry)) k) (map fst (out_figures out))
           = map (figure_name (fst (snd entry))) [1..<Suc (length (out_indices_by_page out))]"
    unfolding k by (rule filter_page_names [OF d l])
  have p: "nat plots_pr_page = 18"
    by (simp add: plots_pr_page_def columns_pr_page_def rows_pr_page_def)
  have e: "length (get_variable_functions cfg) = length (variable_labels cfg)
            \<and> length (operators cfg) = length (variable_labels cfg)
          \<longrightarrow> n_variables cfg = length (variable_labels cfg)"
    by (simp add: n_variables_def)
  from 1 c' n p e show ?thesis by (intro conjI)
qed

lemma example_run_names:
  "(case run example_config example_files_all example_values facet_yaxes of
      Inl e \<Rightarrow> False
    | Inr out \<Rightarrow> map fst (out_figures out) = [''A 1'', ''B 1'']
        \<and> out_indices_by_page out = [[0, 1]])"
  by code_simp

theorem figures_per_surviving_shock_witness:
  "\<exists>out. run example_config example_files_all example_values facet_yaxes = Inr out
     \<and> (''b'', ''B'', ''lb'', ''lb'', 20, ''pm'') \<in> set (shock_entries example_config)
     \<and> shock_files_exist example_config example_files_all ''b''
     \<and> map fst (out_figures out) = [''A 1'', ''B 1'']
     \<and> filter (\<lambda>name. \<exists>k. name = figure_name ''B'' k) (map fst (out_figures out))
           = map (figure_name ''B'') [1..<Suc (length (out_indices_by_page out))]
     \<and> out_indices_by_page out = [[0, 1]]
     \<and> n_variables example_config = 2"
proof -
  from example_run_names obtain out where
    r: "run example_config example_files_all example_values facet_yaxes = Inr out"
    and k: "map fst (out_figures out) = [''A 1'', ''B 1'']"
    and ibp: "out_indices_by_page out = [[0, 1]]"
    by (cases "run example_config example_files_all example_values facet_yaxes") auto
  have m: "(''b'', ''B'', ''lb'', ''lb'', 20, ''pm'') \<in> set (shock_entries example_config)"
    by (simp add: shock_entries_def shock_labels_def DA_def example_fields)
  have s: "shock_files_exist example_config example_files_all ''b''"
    by (simp add: shock_files_exist_def example_fields example_files_all_def example_files_def
          shock_variation_suffixes_def gdx_path_def)
  from s have s': "shock_files_exist example_config example_files_all
      (fst (''b'', ''B'', ''lb'', ''lb'', 20::nat, ''pm''))" by simp
  note T = figures_per_surviving_shock [OF r m s']
  from T have f: "filter (\<lambda>name. \<exists>k. name = figure_name ''B'' k) (map fst (out_figures out))
           = map (figure_name ''B'') [1..<Suc (length (out_indices_by_page out))]"
    by simp
  have v: "n_variables example_config = 2"
    by (simp add: n_variables_def variable_labels_def DA_def example_fields)
  from r m s k f ibp v show ?thesis by (intro exI [of _ out] conjI)
qed

lemma missing_file_fails:
  assumes "fl \<in> set (gdx_folders_info cfg)" and "suffix \<in> set (shock_variation_suffixes cfg)"
    and "gdx_path (fst fl) shock suffix \<notin> files"
  shows "\<not> shock_files_exist cfg files shock"
  using assms unfolding shock_files_exist_all by blast

lemma rows_exclude_failed:
  assumes "build_data cfg files = Inr st" and "\<not> shock_files_exist cfg files shock"
    and "r \<in> set (st_data st)"
  shows "shock_name r \<noteq> shock"
proof -
  from row_entry [OF assms(1,3)] obtain e where
    e: "e \<in> set (surviving cfg files)" and n: "shock_name r = fst e" by blast
  from e have "shock_files_exist cfg files (fst e)" by (simp add: surviving_def)
  with assms(2) n show ?thesis by auto
qed

lemma labels_exclude_failed:
  assumes "build_data cfg files = Inr st"
    and "\<forall>entry \<in> set (shock_entries cfg).
           fst (snd entry) = label \<longrightarrow> \<not> shock_files_exist cfg files (fst entry)"
  shows "label \<notin> set (map shock_label (st_data st))"
proof
  assume "label \<in> set (map shock_label (st_data st))"
  then obtain r where r: "r \<in> set (st_data st)" and l: "shock_label r = label" by auto
  from row_entry [OF assms(1) r] obtain e where
    e: "e \<in> set (surviving cfg files)" and n: "shock_label r = fst (snd e)" by blast
  from e have "e \<in> set (shock_entries cfg)" "shock_files_exist cfg files (fst e)"
    by (simp_all add: surviving_def)
  with assms(2) n l show False by auto
qed

lemma image_names: "fst ` set (map as_image figs) = image_path ` fst ` set figs"
  by (force simp: as_image_def)

lemma image_figures: "snd ` set (map as_image figs) = snd ` set figs"
  by (force simp: as_image_def)

lemma absent_from_figures:
  assumes "\<forall>fig \<in> F. \<forall>p \<in> set (fig_data fig). f p \<noteq> s" and "set figs \<subseteq> F"
  shows "s \<notin> f ` set (concat (map fig_data figs))"
  using assms by fastforce

text \<open>
  Claim C2. If for some configured folder and variation suffix the file
  \<^verbatim>\<open>{folder}\{shock}{suffix}.gdx\<close> is missing, then no row of the table built has that shock name,
  in any folder; and when the run ends normally no row of the table or record of the frame,
  and no record of any figure of the HTML report, the PDF report or the images, has it.
  A label all of whose shocks miss a file names no figure and no image.
\<close>

theorem missing_shock_skipped:
  assumes "fl \<in> set (gdx_folders_info cfg)" and "suffix \<in> set (shock_variation_suffixes cfg)"
    and "gdx_path (fst fl) shock suffix \<notin> files"
  shows "(\<forall>st. build_data cfg files = Inr st \<longrightarrow> (\<forall>r \<in> set (st_data st). shock_name r \<noteq> shock))
       \<and> (\<forall>out. run cfg files dtf plot = Inr out \<longrightarrow>
            (\<forall>r \<in> set (tb_rows (out_data out)). shock_name r \<noteq> shock)
          \<and> (\<forall>p \<in> set (fr_points (out_df out)). shock_name (pt_row p) \<noteq> shock)
          \<and> (\<forall>fig \<in> set (out_html out) \<union> set (out_pdf out) \<union> snd ` set (out_images out).
                \<forall>p \<in> set (fig_data fig). shock_name (pt_row p) \<noteq> shock)
          \<and> (\<forall>label.
                (\<forall>entry \<in> set (shock_entries cfg).
                   fst (snd entry) = label \<longrightarrow> \<not> shock_files_exist cfg files (fst entry))
                \<longrightarrow> (\<forall>k. figure_name label k \<notin> fst ` set (out_figures out)
                        \<and> image_path (figure_name label k) \<notin> fst ` set (out_images out))))"
proof -
  from assms have x: "\<not> shock_files_exist cfg files shock" by (rule missing_file_fails)
  have 1: "\<forall>st. build_data cfg files = Inr st \<longrightarrow> (\<forall>r \<in> set (st_data st). shock_name r \<noteq> shock)"
    using rows_exclude_failed [OF _ x] by blast
  have 2: "\<forall>out. run cfg files dtf plot = Inr out \<longrightarrow>
            (\<forall>r \<in> set (tb_rows (out_data out)). shock_name r \<noteq> shock)
          \<and> (\<forall>p \<in> set (fr_points (out_df out)). shock_name (pt_row p) \<noteq> shock)
          \<and> (\<forall>fig \<in> set (out_html out) \<union> set (out_pdf out) \<union> snd ` set (out_images out).
                \<forall>p \<in> set (fig_data fig). shock_name (pt_row p) \<noteq> shock)
          \<and> (\<forall>label.
                (\<forall>entry \<in> set (shock_entries cfg).
                   fst (snd entry) = label \<longrightarrow> \<not> shock_files_exist cfg files (fst entry))
                \<longrightarrow> (\<forall>k. figure_name label k \<notin> fst ` set (out_figures out)
                        \<and> image_path (figure_name label k) \<notin> fst ` set (out_images out)))"
  proof (intro allI impI)
    fix out
    assume "run cfg files dtf plot = Inr out"
    then obtain st where b: "build_data cfg files = Inr st"
      and d: "out_data out = pd_DataFrame (st_data st)"
      and df: "make_df dtf (pd_DataFrame (st_data st)) = Inr (out_df out)"
      and j: "list_all2 (job_done plot (out_df out)) (out_figures out)
           (all_jobs (df_labels (out_df out)) (out_indices_by_page out))"
      and im: "out_images out = map as_image (out_figures out)"
      and h: "out_html out = map snd (out_figures out)"
      and p: "out_pdf out = map snd (out_figures out)"
      by (rule run_Inr)
    have t: "tb_rows (pd_DataFrame (st_data st)) = st_data st" by (simp add: pd_DataFrame_def)
    have a: "\<forall>r \<in> set (tb_rows (out_data out)). shock_name r \<noteq> shock"
      unfolding d t using rows_exclude_failed [OF b x] by blast
    have c: "\<forall>p \<in> set (fr_points (out_df out)). shock_name (pt_row p) \<noteq> shock"
    proof
      fix q assume "q \<in> set (fr_points (out_df out))"
      then have "pt_row q \<in> set (tb_rows (pd_DataFrame (st_data st)))"
        by (rule make_df_rows [OF df])
      then have "pt_row q \<in> set (st_data st)" unfolding t .
      then show "shock_name (pt_row q) \<noteq> shock" by (rule rows_exclude_failed [OF b x])
    qed
    have f: "\<forall>fig \<in> set (out_html out) \<union> set (out_pdf out) \<union> snd ` set (out_images out).
                \<forall>p \<in> set (fig_data fig). shock_name (pt_row p) \<noteq> shock"
    proof (intro ballI)
      fix fig q
      assume "fig \<in> set (out_html out) \<union> set (out_pdf out) \<union> snd ` set (out_images out)"
        and q: "q \<in> set (fig_data fig)"
      then have "fig \<in> snd ` set (out_figures out)"
        unfolding h p im image_figures by auto
      then obtain entry where en: "entry \<in> set (out_figures out)" and s: "fig = snd entry" by auto
      from figures_member [OF j en] obtain l k where
        "make_figure plot (out_df out) l (out_indices_by_page out ! k) = Inr fig"
        unfolding s by blast
      from make_figure_data [OF this] q have "q \<in> set (fr_points (out_df out))" by simp
      with c show "shock_name (pt_row q) \<noteq> shock" by blast
    qed
    have g: "\<forall>label.
                (\<forall>entry \<in> set (shock_entries cfg).
                   fst (snd entry) = label \<longrightarrow> \<not> shock_files_exist cfg files (fst entry))
                \<longrightarrow> (\<forall>k. figure_name label k \<notin> fst ` set (out_figures out)
                        \<and> image_path (figure_name label k) \<notin> fst ` set (out_images out))"
    proof (intro allI impI)
      fix label k
      assume "\<forall>entry \<in> set (shock_entries cfg).
                   fst (snd entry) = label \<longrightarrow> \<not> shock_files_exist cfg files (fst entry)"
      from labels_exclude_failed [OF b this]
      have "label \<notin> set (df_labels (out_df out))"
        unfolding df_labels_rows [OF df] unique_set .
      from page_names_other [OF this]
      have n: "figure_name label k \<notin> set (page_names (df_labels (out_df out))
                  (length (out_indices_by_page out)))" .
      have "map fst (out_figures out)
          = page_names (df_labels (out_df out)) (length (out_indices_by_page out))"
        using jobs_names [OF j] by (simp only: all_jobs_names)
      with n have "figure_name label k \<notin> set (map fst (out_figures out))" by simp
      then have m: "figure_name label k \<notin> fst ` set (out_figures out)" by simp
      then have "image_path (figure_name label k) \<notin> image_path ` fst ` set (out_figures out)"
        using image_path_inj by (auto dest: injD)
      then have "image_path (figure_name label k) \<notin> fst ` set (out_images out)"
        unfolding im image_names .
      with m show "figure_name label k \<notin> fst ` set (out_figures out)
                        \<and> image_path (figure_name label k) \<notin> fst ` set (out_images out)" ..
    qed
    from a c f g show "(\<forall>r \<in> set (tb_rows (out_data out)). shock_name r \<noteq> shock)
          \<and> (\<forall>p \<in> set (fr_points (out_df out)). shock_name (pt_row p) \<noteq> shock)
          \<and> (\<forall>fig \<in> set (out_html out) \<union> set (out_pdf out) \<union> snd ` set (out_images out).
                \<forall>p \<in> set (fig_data fig). shock_name (pt_row p) \<noteq> shock)
          \<and> (\<forall>label.
                (\<forall>entry \<in> set (shock_entries cfg).
                   fst (snd entry) = label \<longrightarrow> \<not> shock_files_exist cfg files (fst entry))
                \<longrightarrow> (\<forall>k. figure_name label k \<notin> fst ` set (out_figures out)
                        \<and> image_path (figure_name label k) \<notin> fst ` set (out_images out)))"
      by (intro conjI)
  qed
  from 1 2 show ?thesis by (intro conjI)
qed

theorem missing_shock_skipped_witness:
  "\<exists>out. run example_config example_files example_values facet_yaxes = Inr out
     \<and> (''Old'', ''old'') \<in> set (gdx_folders_info example_config)
     \<and> ''_blip'' \<in> set (shock_variation_suffixes example_config)
     \<and> gdx_path ''Old'' ''b'' ''_blip'' \<notin> example_files
     \<and> gdx_path ''Gdx'' ''b'' ''_blip'' \<in> example_files
     \<and> build_data example_config example_files = Inr example_state
     \<and> ''b'' \<notin> shock_name ` set (st_data example_state)
     \<and> ''b'' \<notin> (\<lambda>p. shock_name (pt_row p)) ` set (concat (map fig_data (out_html out)))
     \<and> ''b'' \<notin> (\<lambda>p. shock_name (pt_row p)) ` set (concat (map fig_data (out_pdf out)))
     \<and> map fst (out_images out) = [''Output/A 1.png'']
     \<and> figure_name ''B'' 1 \<notin> fst ` set (out_figures out)
     \<and> image_path (figure_name ''B'' 1) \<notin> fst ` set (out_images out)"
proof -
  from example_run obtain out where
    r: "run example_config example_files example_values facet_yaxes = Inr out"
    and n: "map fst (out_images out) = [''Output/A 1.png'']"
    by (cases "run example_config example_files example_values facet_yaxes") auto
  have fl: "(''Old'', ''old'') \<in> set (gdx_folders_info example_config)"
    and sx: "''_blip'' \<in> set (shock_variation_suffixes example_config)"
    by (simp_all add: example_fields shock_variation_suffixes_def)
  have m: "gdx_path ''Old'' ''b'' ''_blip'' \<notin> example_files"
    and m2: "gdx_path ''Gdx'' ''b'' ''_blip'' \<in> example_files"
    by (simp_all add: example_files_def gdx_path_def baseline_path_def)
  from m have m': "gdx_path (fst (''Old'', ''old'')) ''b'' ''_blip'' \<notin> example_files" by simp
  note T = missing_shock_skipped [OF fl sx m', of example_values facet_yaxes]
  from T example_build have 1: "\<forall>r \<in> set (st_data example_state). shock_name r \<noteq> ''b''"
    by blast
  then have a: "''b'' \<notin> shock_name ` set (st_data example_state)" by (auto simp: image_iff)
  from T r have 2: "\<forall>fig \<in> set (out_html out) \<union> set (out_pdf out) \<union> snd ` set (out_images out).
                \<forall>p \<in> set (fig_data fig). shock_name (pt_row p) \<noteq> ''b''"
    by blast
  from 2 have h: "''b'' \<notin> (\<lambda>p. shock_name (pt_row p)) ` set (concat (map fig_data (out_html out)))"
    by (rule absent_from_figures) blast
  from 2 have p: "''b'' \<notin> (\<lambda>p. shock_name (pt_row p)) ` set (concat (map fig_data (out_pdf out)))"
    by (rule absent_from_figures) blast
  have e: "\<forall>entry \<in> set (shock_entries example_config).
             fst (snd entry) = ''B'' \<longrightarrow> \<not> shock_files_exist example_config example_files (fst entry)"
    using example_exists
    by (simp add: shock_entries_def shock_labels_def DA_def example_fields)
  from T r have 3: "\<forall>label.
                (\<forall>entry \<in> set (shock_entries example_config).
                   fst (snd entry) = label \<longrightarrow> \<not> shock_files_exist example_config example_files (fst entry))
                \<longrightarrow> (\<forall>k. figure_name label k \<notin> fst ` set (out_figures out)
                        \<and> image_path (figure_name label k) \<notin> fst ` set (out_images out))"
    by blast
  from 3 e have g: "figure_name ''B'' 1 \<notin> fst ` set (out_figures out)"
    "image_path (figure_name ''B'' 1) \<notin> fst ` set (out_images out)"
    by blast+
  from r fl sx m m2 example_build a h p n g show ?thesis by (intro exI [of _ out] conjI)
qed

end
